theory Spec2Isabelle
  imports Main "HOL-Library.Word" "HOL-Library.AList"
begin

section \<open>Sender-based sliding-window rate limiter (package postfix)\<close>

text \<open>
  A shallow embedding of the sliding-window rate limiter: the per-sender
  \<open>RatelimitToken\<close>, the registry \<open>RatelimitTokenMap\<close> and the controller
  \<open>RatelimitSlidingWindow\<close>.

  Conventions of the embedding:
  \<^item> Go's \<open>int\<close> is a 64-bit two's complement word (\<open>goint\<close>): \<open>+\<close> and \<open>-\<close> wrap,
    \<open>tcount > messagelimit\<close> is the signed comparison \<open>messagelimit <s tcount\<close>.
  \<^item> A \<open>time.Time\<close> is the instant it denotes, in nanoseconds since the zero time
    (\<open>Time\<close>); location and monotonic clock reading are left out. A
    \<open>time.Duration\<close> is a 64-bit count of nanoseconds.
  \<^item> A Go \<open>map\<close> is an association list; lookups read the first entry of a key and
    the operations below never create a second one.
  \<^item> \<open>*RatelimitToken\<close> pointers are addresses into a store of token objects
    (\<open>heap\<close>, a list indexed by address), so that two pointers to one token are
    the same address.
  \<^item> \<open>*log.Logger\<close> is \<open>Logger option\<close>, \<open>None\<close> being the nil pointer. Calling
    \<open>Println\<close> on nil panics; on a logger it writes to a sink outside the model.
  \<^item> A panic is the result \<open>Inl p\<close>; the mutexes are left out (one caller at a time).
  \<^item> \<open>time.Now()\<close> is the argument \<open>now\<close> of \<open>RateLimit\<close>.
\<close>

subsection \<open>Basic types\<close>

type_synonym goint = "64 word"
type_synonym Time = int
type_synonym Duration = "64 word"
type_synonym addr = nat

datatype panic = NilPointerDereference | InvalidAddress

datatype error = KeyNotFound | ErrSyntax | ErrRange

datatype Logger = Logger nat

definition andThen :: "panic + 'a \<Rightarrow> ('a \<Rightarrow> panic + 'b) \<Rightarrow> panic + 'b" where
  "andThen m f = (case m of Inl p \<Rightarrow> Inl p | Inr x \<Rightarrow> f x)"

definition Println :: "Logger option \<Rightarrow> panic + unit" where
  "Println l = (case l of None \<Rightarrow> Inl NilPointerDereference | Some _ \<Rightarrow> Inr ())"

definition Minute :: int where
  "Minute = 60000000000"

definition Truncate :: "Time \<Rightarrow> int \<Rightarrow> Time" where
  "Truncate t d = (if d \<le> 0 then t else t - t mod d)"

definition Add :: "Time \<Rightarrow> Duration \<Rightarrow> Time" where
  "Add t d = t + sint d"

subsection \<open>Library functions: strings.Split and strconv.Atoi\<close>

text \<open>\<open>strings.Split(s, sep)\<close> for a one-byte separator: all the pieces between
  separators, one more piece than there are separators.\<close>

fun Split :: "string \<Rightarrow> char \<Rightarrow> string list" where
  "Split [] sep = [[]]"
| "Split (c # cs) sep =
     (if c = sep then [] # Split cs sep
      else (case Split cs sep of [] \<Rightarrow> [[c]] | piece # pieces \<Rightarrow> (c # piece) # pieces))"

text \<open>\<open>strconv.Atoi\<close>: an optional sign, then one or more decimal digits, read left
  to right; a value outside the 64-bit signed range is a range error.\<close>

fun parseDigits :: "string \<Rightarrow> nat \<Rightarrow> error + nat" where
  "parseDigits [] n = Inr n"
| "parseDigits (c # cs) n =
     (if (48::nat) \<le> of_char c \<and> of_char c \<le> (57::nat) then
        (let n1 = n * 10 + (of_char c - 48) in
         if n1 \<ge> 2 ^ 64 then Inl ErrRange else parseDigits cs n1)
      else Inl ErrSyntax)"

definition Atoi :: "string \<Rightarrow> error + goint" where
  "Atoi s =
     (case s of
        [] \<Rightarrow> Inl ErrSyntax
      | c # cs \<Rightarrow>
          (let neg = (c = CHR ''-'');
               ds = (if c = CHR ''-'' \<or> c = CHR ''+'' then cs else s)
           in if ds = [] then Inl ErrSyntax
              else (case parseDigits ds 0 of
                      Inl err \<Rightarrow> Inl err
                    | Inr un \<Rightarrow>
                        if \<not> neg \<and> un \<ge> 2 ^ 63 then Inl ErrRange
                        else if neg \<and> un > 2 ^ 63 then Inl ErrRange
                        else Inr (if neg then - of_nat un else of_nat un))))"

subsection \<open>The override map\<close>

text \<open>Modelled from the spec: the type \<open>MemoryMap\<close> and its method \<open>Get\<close> are not
  among the source files. The spec asks of the override-map provider a synchronous
  read-only lookup \<open>get(key) \<rightarrow> (value, found)\<close>; the callers test the second
  component of \<open>Get\<close> against nil, so a missing key is the error \<open>KeyNotFound\<close>.\<close>

type_synonym MemoryMap = "(string \<times> string) list"

definition Get :: "MemoryMap \<Rightarrow> string \<Rightarrow> error + string" where
  "Get m k = (case map_of m k of None \<Rightarrow> Inl KeyNotFound | Some v \<Rightarrow> Inr v)"

subsection \<open>Data model\<close>

record RatelimitToken =
  key :: string
  tsd :: "(Time \<times> goint) list"
  count :: goint
  sliceCount :: goint
  rlt_logger :: "Logger option"

record RatelimitTokenMap =
  rlm_tokens :: "(string \<times> addr) list"
  rlm_logger :: "Logger option"

record RatelimitSlidingWindow =
  defaultLimit :: goint
  deferMessage :: string
  interval :: Duration
  whiteList :: MemoryMap
  domainList :: MemoryMap
  rsw_tokens :: RatelimitTokenMap
  rsw_logger :: "Logger option"

text \<open>The controller together with the store of token objects its registry
  points into. The field \<open>rsw_tokens\<close> holds the registry the Go pointer
  \<open>tokens\<close> refers to.\<close>

record world =
  rsw :: RatelimitSlidingWindow
  heap :: "RatelimitToken list"

subsection \<open>Constructors and setters\<close>

definition NewRatelimitSlidingWindow ::
  "MemoryMap \<Rightarrow> MemoryMap \<Rightarrow> RatelimitTokenMap \<Rightarrow> RatelimitSlidingWindow" where
  "NewRatelimitSlidingWindow w d t =
     \<lparr>defaultLimit = 120, deferMessage = [], interval = 0, whiteList = w,
      domainList = d, rsw_tokens = t, rsw_logger = None\<rparr>"

definition NewRatelimitTokenMap :: RatelimitTokenMap where
  "NewRatelimitTokenMap = \<lparr>rlm_tokens = [], rlm_logger = None\<rparr>"

definition NewRatelimitToken :: "string \<Rightarrow> RatelimitToken" where
  "NewRatelimitToken k = \<lparr>key = k, tsd = [], count = 0, sliceCount = 0, rlt_logger = None\<rparr>"

definition SetDefaultLimit :: "goint \<Rightarrow> RatelimitSlidingWindow \<Rightarrow> RatelimitSlidingWindow" where
  "SetDefaultLimit l r = r\<lparr>defaultLimit := l\<rparr>"

text \<open>\<open>time.ParseDuration\<close> is the parameter \<open>ParseDuration\<close>; on an error Go
  returns the duration 0 beside it.\<close>

definition SetInterval ::
  "(string \<Rightarrow> error + Duration) \<Rightarrow> string \<Rightarrow> RatelimitSlidingWindow
     \<Rightarrow> panic + RatelimitSlidingWindow" where
  "SetInterval ParseDuration i r =
     (case ParseDuration (i @ ''s'') of
        Inl err \<Rightarrow> andThen (Println (rsw_logger r)) (\<lambda>_. Inr (r\<lparr>interval := 0 * (- 1)\<rparr>))
      | Inr d \<Rightarrow> Inr (r\<lparr>interval := d * (- 1)\<rparr>))"

definition SetLogger_rsw :: "Logger option \<Rightarrow> RatelimitSlidingWindow \<Rightarrow> RatelimitSlidingWindow" where
  "SetLogger_rsw l r = r\<lparr>rsw_logger := l\<rparr>"

definition SetLogger_rlm :: "Logger option \<Rightarrow> RatelimitTokenMap \<Rightarrow> RatelimitTokenMap" where
  "SetLogger_rlm l m = m\<lparr>rlm_logger := l\<rparr>"

definition SetLogger_rlt :: "Logger option \<Rightarrow> RatelimitToken \<Rightarrow> RatelimitToken" where
  "SetLogger_rlt l t = t\<lparr>rlt_logger := l\<rparr>"

definition SetDeferMessage :: "string \<Rightarrow> RatelimitSlidingWindow \<Rightarrow> RatelimitSlidingWindow" where
  "SetDeferMessage m r = r\<lparr>deferMessage := m\<rparr>"

definition SetWhiteList :: "MemoryMap \<Rightarrow> RatelimitSlidingWindow \<Rightarrow> RatelimitSlidingWindow" where
  "SetWhiteList wl r = r\<lparr>whiteList := wl\<rparr>"

definition SetDomainList :: "MemoryMap \<Rightarrow> RatelimitSlidingWindow \<Rightarrow> RatelimitSlidingWindow" where
  "SetDomainList d r = r\<lparr>domainList := d\<rparr>"

subsection \<open>Token operations\<close>

definition Key :: "RatelimitToken \<Rightarrow> string" where
  "Key rlt = key rlt"

definition RecordMessage :: "Time \<Rightarrow> goint \<Rightarrow> RatelimitToken \<Rightarrow> panic + RatelimitToken" where
  "RecordMessage ts recips rlt =
     (let keytime = Truncate ts Minute in
      andThen (Println (rlt_logger rlt)) (\<lambda>_.
        case map_of (tsd rlt) keytime of
          Some val \<Rightarrow>
            Inr (rlt\<lparr>count := count rlt + recips,
                     tsd := AList.update keytime (val + recips) (tsd rlt)\<rparr>)
        | None \<Rightarrow>
            Inr (rlt\<lparr>count := count rlt + recips,
                     sliceCount := sliceCount rlt + 1,
                     tsd := AList.update keytime recips (tsd rlt)\<rparr>)))"

definition Count :: "RatelimitToken \<Rightarrow> goint" where
  "Count rlt = count rlt"

text \<open>The loop of \<open>Prune\<close> ranges over the entries of the map and deletes only the
  entry it is visiting, so every entry present at the start is visited once.\<close>

fun Prune_range :: "Time \<Rightarrow> (Time \<times> goint) list \<Rightarrow> RatelimitToken \<Rightarrow> panic + RatelimitToken" where
  "Prune_range lim [] rlt = Inr rlt"
| "Prune_range lim ((t, val) # rest) rlt =
     (if t < lim then
        andThen (Println (rlt_logger rlt)) (\<lambda>_.
          Prune_range lim rest
            (rlt\<lparr>count := count rlt - val,
                 sliceCount := sliceCount rlt - 1,
                 tsd := AList.delete t (tsd rlt)\<rparr>))
      else Prune_range lim rest rlt)"

definition Prune :: "Time \<Rightarrow> RatelimitToken \<Rightarrow> panic + RatelimitToken" where
  "Prune lim rlt = Prune_range lim (tsd rlt) rlt"

subsection \<open>Registry operations\<close>

definition AddToken :: "addr \<Rightarrow> RatelimitTokenMap \<Rightarrow> RatelimitToken list \<Rightarrow> panic + RatelimitTokenMap" where
  "AddToken t rlm h =
     (if t < length h
      then Inr (rlm\<lparr>rlm_tokens := AList.update (Key (h ! t)) t (rlm_tokens rlm)\<rparr>)
      else Inl InvalidAddress)"

definition Token ::
  "string \<Rightarrow> RatelimitTokenMap \<Rightarrow> RatelimitToken list
     \<Rightarrow> addr \<times> RatelimitTokenMap \<times> RatelimitToken list" where
  "Token k rlm h =
     (case map_of (rlm_tokens rlm) k of
        Some t \<Rightarrow> (t, rlm, h)
      | None \<Rightarrow>
          (let t = SetLogger_rlt (rlm_logger rlm) (NewRatelimitToken k);
               a = length h
           in (a, rlm\<lparr>rlm_tokens := AList.update k a (rlm_tokens rlm)\<rparr>, h @ [t])))"

subsection \<open>The controller\<close>

definition checkWhiteList :: "RatelimitSlidingWindow \<Rightarrow> string \<Rightarrow> bool" where
  "checkWhiteList r k = (case Get (whiteList r) k of Inl err \<Rightarrow> False | Inr _ \<Rightarrow> True)"

definition checkDomain :: "RatelimitSlidingWindow \<Rightarrow> string \<Rightarrow> bool" where
  "checkDomain r k = (case Get (domainList r) k of Inl err \<Rightarrow> False | Inr _ \<Rightarrow> True)"

definition getDomainLimit :: "RatelimitSlidingWindow \<Rightarrow> string \<Rightarrow> panic + goint" where
  "getDomainLimit r domn =
     (case Get (domainList r) domn of
        Inl err \<Rightarrow> andThen (Println (rsw_logger r)) (\<lambda>_. Inr 0)
      | Inr d \<Rightarrow>
          (case Atoi d of
             Inl err \<Rightarrow> andThen (Println (rsw_logger r)) (\<lambda>_. Inr 0)
           | Inr val \<Rightarrow> Inr val))"

text \<open>Lines 162 to 168 of \<open>RateLimit\<close>: the domain of a sender.\<close>

definition senderDomain :: "string \<Rightarrow> string" where
  "senderDomain sender =
     (let elems = Split sender (CHR ''@'')
      in if length elems > 1 then elems ! 1 else [])"

text \<open>Lines 165 and 183 to 185 of \<open>RateLimit\<close>: the limit a sender of this domain
  is held to.\<close>

definition messagelimit :: "RatelimitSlidingWindow \<Rightarrow> string \<Rightarrow> panic + goint" where
  "messagelimit r domain =
     (if checkDomain r domain then getDomainLimit r domain else Inr (defaultLimit r))"

definition permitAction :: string where
  "permitAction = ''action=dunno'' @ [CHR 0x0A, CHR 0x0A]"

definition deferAction :: "string \<Rightarrow> string" where
  "deferAction m = ''action=defer_if_permit '' @ m @ [CHR 0x0A, CHR 0x0A]"

text \<open>Reading through a \<open>*RatelimitToken\<close>. Go has no dangling pointers: the second
  branch keeps the function total and is not reached from a configured world.\<close>

definition deref :: "RatelimitToken list \<Rightarrow> addr \<Rightarrow> panic + RatelimitToken" where
  "deref h a = (if a < length h then Inr (h ! a) else Inl InvalidAddress)"

definition RateLimit :: "Time \<Rightarrow> string \<Rightarrow> goint \<Rightarrow> world \<Rightarrow> panic + (string \<times> world)" where
  "RateLimit now sender recips0 w =
     (let r = rsw w;
          domain = senderDomain sender
      in
      andThen (if recips0 = 0
               then andThen (Println (rsw_logger r)) (\<lambda>_. Inr (recips0 + 1))
               else Inr recips0) (\<lambda>recips.
      if checkWhiteList r sender then
        andThen (Println (rsw_logger r)) (\<lambda>_. Inr (permitAction, w))
      else if checkWhiteList r domain then
        andThen (Println (rsw_logger r)) (\<lambda>_. Inr (permitAction, w))
      else
        andThen (messagelimit r domain) (\<lambda>lim.
        case Token sender (rsw_tokens r) (heap w) of (token, rlm', h') \<Rightarrow>
        let limit = Add now (interval r) in
        andThen (deref h' token) (\<lambda>t0.
        andThen (Prune limit t0) (\<lambda>t1.
        let tcount = Count t1 + recips in
        if lim <s tcount then
          andThen (Println (rsw_logger r)) (\<lambda>_.
            Inr (deferAction (deferMessage r),
                 \<lparr>rsw = r\<lparr>rsw_tokens := rlm'\<rparr>, heap = h'[token := t1]\<rparr>))
        else
          andThen (RecordMessage now recips t1) (\<lambda>t2.
          andThen (Println (rsw_logger r)) (\<lambda>_.
            Inr (permitAction,
                 \<lparr>rsw = r\<lparr>rsw_tokens := rlm'\<rparr>, heap = h'[token := t2]\<rparr>))))))))"

subsection \<open>Specification-level definitions\<close>

text \<open>A bucket is expired at a cutoff when its minute key is strictly before it.\<close>

definition expired :: "Time \<Rightarrow> (Time \<times> goint) \<Rightarrow> bool" where
  "expired cutoff p = (fst p < cutoff)"

text \<open>The specification of \<open>prune\<close>, in the words of the spec: remove every bucket whose
  key is strictly before the cutoff, subtract each removed bucket's value from the total
  and decrement the bucket count once per removed bucket.\<close>

definition prune_spec :: "Time \<Rightarrow> RatelimitToken \<Rightarrow> RatelimitToken" where
  "prune_spec cutoff rlt =
     rlt\<lparr>count := count rlt - sum_list (map snd (filter (expired cutoff) (tsd rlt))),
         sliceCount := sliceCount rlt - of_nat (length (filter (expired cutoff) (tsd rlt))),
         tsd := filter (\<lambda>p. \<not> expired cutoff p) (tsd rlt)\<rparr>"

text \<open>The sum of all values stored in the per-minute bucket map.\<close>

definition bucket_sum :: "RatelimitToken \<Rightarrow> goint" where
  "bucket_sum rlt = sum_list (map snd (tsd rlt))"

text \<open>A finite sequence of \<open>RecordMessage\<close> calls on one token, stopping at the
  first panic.\<close>

fun RecordMessages :: "(Time \<times> goint) list \<Rightarrow> RatelimitToken \<Rightarrow> panic + RatelimitToken" where
  "RecordMessages [] rlt = Inr rlt"
| "RecordMessages ((ts, recips) # calls) rlt =
     andThen (RecordMessage ts recips rlt) (RecordMessages calls)"

text \<open>The token states that the operations of the package can produce from a token
  made by \<open>NewRatelimitToken\<close>.\<close>

inductive reachable :: "RatelimitToken \<Rightarrow> bool" where
  fresh: "reachable (NewRatelimitToken k)"
| logger: "reachable t \<Longrightarrow> reachable (SetLogger_rlt l t)"
| recorded: "reachable t \<Longrightarrow> RecordMessage ts n t = Inr t' \<Longrightarrow> reachable t'"
| pruned: "reachable t \<Longrightarrow> Prune lim t = Inr t' \<Longrightarrow> reachable t'"

text \<open>A finite sequence of \<open>Token\<close> (get-or-create) calls on the registry, with the
  pointers they return.\<close>

fun Tokens ::
  "string list \<Rightarrow> RatelimitTokenMap \<Rightarrow> RatelimitToken list
     \<Rightarrow> addr list \<times> RatelimitTokenMap \<times> RatelimitToken list" where
  "Tokens [] rlm h = ([], rlm, h)"
| "Tokens (k # ks) rlm h =
     (case Token k rlm h of (a, rlm1, h1) \<Rightarrow>
        (case Tokens ks rlm1 h1 of (as, rlm2, h2) \<Rightarrow> (a # as, rlm2, h2)))"

text \<open>A configured world: \<open>SetLogger\<close> has been called on the controller and on the
  registry, and every registered token is an object of the store that has a logger.\<close>

definition configured :: "world \<Rightarrow> bool" where
  "configured w \<longleftrightarrow>
     rsw_logger (rsw w) \<noteq> None \<and> rlm_logger (rsw_tokens (rsw w)) \<noteq> None
     \<and> (\<forall>(k, a) \<in> set (rlm_tokens (rsw_tokens (rsw w))).
           a < length (heap w) \<and> rlt_logger (heap w ! a) \<noteq> None)"

text \<open>Lines 170 to 173 of \<open>RateLimit\<close>: a recipient count of 0 is counted as 1.\<close>

definition normalized :: "goint \<Rightarrow> goint" where
  "normalized recips = (if recips = 0 then 1 else recips)"

text \<open>Lines 175 to 182 of \<open>RateLimit\<close>: the sender or its domain is in the
  whitelist.\<close>

definition whitelisted :: "RatelimitSlidingWindow \<Rightarrow> string \<Rightarrow> bool" where
  "whitelisted r sender \<longleftrightarrow> checkWhiteList r sender \<or> checkWhiteList r (senderDomain sender)"

text \<open>The token object registered for a sender, if any.\<close>

definition tokenOf :: "world \<Rightarrow> string \<Rightarrow> RatelimitToken option" where
  "tokenOf w sender =
     (case map_of (rlm_tokens (rsw_tokens (rsw w))) sender of
        None \<Rightarrow> None
      | Some a \<Rightarrow> if a < length (heap w) then Some (heap w ! a) else None)"

text \<open>The token that \<open>Token\<close> hands to \<open>RateLimit\<close>: the registered one, or a new
  one carrying the registry's logger.\<close>

definition senderToken :: "world \<Rightarrow> string \<Rightarrow> RatelimitToken" where
  "senderToken w sender =
     (case tokenOf w sender of
        Some t \<Rightarrow> t
      | None \<Rightarrow> SetLogger_rlt (rlm_logger (rsw_tokens (rsw w))) (NewRatelimitToken sender))"

text \<open>The sender's token after the pruning step of \<open>RateLimit\<close>, at the cutoff
  \<open>now.Add(rsw.interval)\<close>; its \<open>count\<close> is the \<open>token.Count()\<close> that the projection
  uses.\<close>

definition pruned_token :: "Time \<Rightarrow> string \<Rightarrow> world \<Rightarrow> RatelimitToken" where
  "pruned_token now sender w = prune_spec (Add now (interval (rsw w))) (senderToken w sender)"

text \<open>Concrete configurations for the examples: default limit 120, a window of 60
  seconds, loggers set.\<close>

definition example_rsw :: "MemoryMap \<Rightarrow> MemoryMap \<Rightarrow> (string \<times> addr) list \<Rightarrow> RatelimitSlidingWindow" where
  "example_rsw wl dl reg =
     \<lparr>defaultLimit = 120, deferMessage = ''rate limit exceeded'', interval = - 60000000000,
      whiteList = wl, domainList = dl,
      rsw_tokens = \<lparr>rlm_tokens = reg, rlm_logger = Some (Logger 0)\<rparr>,
      rsw_logger = Some (Logger 0)\<rparr>"

definition example_token :: "string \<Rightarrow> (Time \<times> goint) list \<Rightarrow> goint \<Rightarrow> RatelimitToken" where
  "example_token k buckets n =
     \<lparr>key = k, tsd = buckets, count = n, sliceCount = of_nat (length buckets),
      rlt_logger = Some (Logger 0)\<rparr>"


section \<open>Properties\<close>

subsection \<open>Panics and logging\<close>

lemma andThen_Inr [simp]: "andThen (Inr x) f = f x"
  by (simp add: andThen_def)

lemma andThen_Inl [simp]: "andThen (Inl p) f = Inl p"
  by (simp add: andThen_def)

lemma Println_Some [simp]: "Println (Some l) = Inr ()"
  by (simp add: Println_def)

lemma Println_None [simp]: "Println None = Inl NilPointerDereference"
  by (simp add: Println_def)

subsection \<open>The token: Prune\<close>

lemma delete_filter: "AList.delete k xs = filter (\<lambda>p. fst p \<noteq> k) xs"
  by (induction xs) (auto simp: AList.delete_eq)

lemma Prune_range_logged:
  "rlt_logger rlt = Some l \<Longrightarrow>
   Prune_range lim xs rlt =
     Inr (rlt\<lparr>count := count rlt - sum_list (map snd (filter (expired lim) xs)),
              sliceCount := sliceCount rlt - of_nat (length (filter (expired lim) xs)),
              tsd := filter (\<lambda>p. \<not> (fst p < lim \<and> fst p \<in> fst ` set xs)) (tsd rlt)\<rparr>)"
proof (induction xs arbitrary: rlt)
  case Nil
  then show ?case by simp
next
  case (Cons x xs)
  obtain t val where x: "x = (t, val)" by (cases x)
  show ?case
  proof (cases "t < lim")
    case True
    let ?r = "rlt\<lparr>count := count rlt - val, sliceCount := sliceCount rlt - 1,
                  tsd := AList.delete t (tsd rlt)\<rparr>"
    have lg: "rlt_logger ?r = Some l" using Cons.prems by simp
    have flt: "filter (\<lambda>p. \<not> (fst p < lim \<and> fst p \<in> fst ` set xs)) (AList.delete t (tsd rlt))
             = filter (\<lambda>p. \<not> (fst p < lim \<and> (fst p = t \<or> fst p \<in> fst ` set xs))) (tsd rlt)"
      using True by (auto simp: delete_filter intro!: filter_cong)
    show ?thesis
      using True Cons.prems Cons.IH [OF lg] flt
      by (simp add: x expired_def algebra_simps)
  next
    case False
    have flt: "filter (\<lambda>p. \<not> (fst p < lim \<and> (fst p = t \<or> fst p \<in> fst ` set xs))) (tsd rlt)
             = filter (\<lambda>p. \<not> (fst p < lim \<and> fst p \<in> fst ` set xs)) (tsd rlt)"
      using False by (auto intro!: filter_cong)
    show ?thesis
      using False Cons.IH [OF Cons.prems] flt
      by (simp add: x expired_def)
  qed
qed

lemma Prune_logged:
  "rlt_logger rlt = Some l \<Longrightarrow> Prune lim rlt = Inr (prune_spec lim rlt)"
proof -
  assume lg: "rlt_logger rlt = Some l"
  have "filter (\<lambda>p. \<not> (fst p < lim \<and> fst p \<in> fst ` set (tsd rlt))) (tsd rlt)
      = filter (\<lambda>p. \<not> expired lim p) (tsd rlt)"
    by (auto simp: expired_def intro!: filter_cong)
  then show ?thesis
    using Prune_range_logged [OF lg, of lim "tsd rlt"]
    by (simp add: Prune_def prune_spec_def)
qed

lemma Prune_range_unlogged:
  "rlt_logger rlt = None \<Longrightarrow> Prune_range lim xs rlt = Inr r \<Longrightarrow>
   r = rlt \<and> filter (expired lim) xs = []"
  by (induction xs arbitrary: rlt) (auto simp: expired_def split: if_splits)

lemma Prune_Inr: "Prune lim rlt = Inr r \<Longrightarrow> r = prune_spec lim rlt"
proof (cases "rlt_logger rlt")
  case None
  assume "Prune lim rlt = Inr r"
  then have r: "r = rlt" and ex: "filter (expired lim) (tsd rlt) = []"
    using Prune_range_unlogged [OF None, of lim "tsd rlt" r] by (simp_all add: Prune_def)
  from ex have "\<forall>p \<in> set (tsd rlt). \<not> expired lim p"
    by (simp add: filter_empty_conv)
  then have "filter (\<lambda>p. \<not> expired lim p) (tsd rlt) = tsd rlt"
    by (simp add: filter_id_conv)
  then show ?thesis using r ex by (simp add: prune_spec_def)
next
  case (Some l)
  assume "Prune lim rlt = Inr r"
  then show ?thesis using Prune_logged [OF Some, of lim] by simp
qed

lemma sum_list_partition:
  fixes xs :: "('a \<times> goint) list"
  shows "sum_list (map snd xs) =
         sum_list (map snd (filter P xs)) + sum_list (map snd (filter (\<lambda>p. \<not> P p) xs))"
  by (induction xs) simp_all

lemma prune_spec_invariant:
  "count rlt = bucket_sum rlt \<Longrightarrow> count (prune_spec lim rlt) = bucket_sum (prune_spec lim rlt)"
  using sum_list_partition [of "tsd rlt" "expired lim"]
  by (simp add: prune_spec_def bucket_sum_def)

subsection \<open>The token: RecordMessage\<close>

lemma update_sum_Some:
  fixes xs :: "(Time \<times> goint) list"
  shows "map_of xs k = Some v \<Longrightarrow>
    sum_list (map snd (filter (\<lambda>p. Q (fst p)) (AList.update k (v + n) xs))) =
    sum_list (map snd (filter (\<lambda>p. Q (fst p)) xs)) + (if Q k then n else 0)"
  by (induction xs) (auto split: if_splits)

lemma update_sum_None:
  fixes xs :: "(Time \<times> goint) list"
  shows "map_of xs k = None \<Longrightarrow>
    sum_list (map snd (filter (\<lambda>p. Q (fst p)) (AList.update k n xs))) =
    sum_list (map snd (filter (\<lambda>p. Q (fst p)) xs)) + (if Q k then n else 0)"
  by (induction xs) (auto split: if_splits)

lemma RecordMessage_logged:
  "rlt_logger rlt = Some l \<Longrightarrow> \<exists>r. RecordMessage ts n rlt = Inr r"
  by (simp add: RecordMessage_def Let_def split: option.splits)

lemma RecordMessage_fields:
  assumes "RecordMessage ts n rlt = Inr r"
  shows "count r = count rlt + n \<and> rlt_logger r = rlt_logger rlt \<and> key r = key rlt"
  using assms
  by (auto simp: RecordMessage_def Let_def andThen_def Println_def split: option.splits)

lemma RecordMessage_sum:
  assumes "RecordMessage ts n rlt = Inr r"
  shows "sum_list (map snd (filter (\<lambda>p. Q (fst p)) (tsd r))) =
         sum_list (map snd (filter (\<lambda>p. Q (fst p)) (tsd rlt))) +
         (if Q (Truncate ts Minute) then n else 0)"
proof (cases "map_of (tsd rlt) (Truncate ts Minute)")
  case None
  then have "tsd r = AList.update (Truncate ts Minute) n (tsd rlt)"
    using assms
    by (auto simp: RecordMessage_def Let_def andThen_def Println_def split: option.splits)
  then show ?thesis using update_sum_None [OF None, of Q n] by simp
next
  case (Some v)
  then have "tsd r = AList.update (Truncate ts Minute) (v + n) (tsd rlt)"
    using assms
    by (auto simp: RecordMessage_def Let_def andThen_def Println_def split: option.splits)
  then show ?thesis using update_sum_Some [OF Some, of Q n] by simp
qed

lemma RecordMessage_invariant:
  assumes "RecordMessage ts n rlt = Inr r" and "count rlt = bucket_sum rlt"
  shows "count r = bucket_sum r"
  using RecordMessage_fields [OF assms(1)] RecordMessage_sum [OF assms(1), of "\<lambda>_. True"] assms(2)
  by (simp add: bucket_sum_def)

lemma Prune_invariant:
  assumes "Prune lim rlt = Inr r" and "count rlt = bucket_sum rlt"
  shows "count r = bucket_sum r"
  using Prune_Inr [OF assms(1)] prune_spec_invariant [OF assms(2)] by simp

lemma reachable_invariant: "reachable t \<Longrightarrow> count t = bucket_sum t"
proof (induction rule: reachable.induct)
  case (fresh k)
  show ?case by (simp add: NewRatelimitToken_def bucket_sum_def)
next
  case (logger t l)
  then show ?case by (simp add: SetLogger_rlt_def bucket_sum_def)
next
  case (recorded t ts n t')
  then show ?case using RecordMessage_invariant by blast
next
  case (pruned t lim t')
  then show ?case using Prune_invariant by blast
qed

lemma RecordMessages_logged:
  "rlt_logger rlt = Some l \<Longrightarrow>
   \<exists>r. RecordMessages calls rlt = Inr r \<and> rlt_logger r = Some l
     \<and> count r = count rlt + sum_list (map snd calls)
     \<and> (\<forall>Q. sum_list (map snd (filter (\<lambda>p. Q (fst p)) (tsd r))) =
         sum_list (map snd (filter (\<lambda>p. Q (fst p)) (tsd rlt))) +
         sum_list (map snd (filter (\<lambda>c. Q (Truncate (fst c) Minute)) calls)))"
proof (induction calls arbitrary: rlt)
  case Nil
  then show ?case by simp
next
  case (Cons c calls)
  obtain ts n where c: "c = (ts, n)" by (cases c)
  obtain r1 where r1: "RecordMessage ts n rlt = Inr r1"
    using RecordMessage_logged [OF Cons.prems] by blast
  have lg: "rlt_logger r1 = Some l"
    using RecordMessage_fields [OF r1] Cons.prems by simp
  obtain r where r: "RecordMessages calls r1 = Inr r" "rlt_logger r = Some l"
      "count r = count r1 + sum_list (map snd calls)"
      "\<And>Q. sum_list (map snd (filter (\<lambda>p. Q (fst p)) (tsd r))) =
         sum_list (map snd (filter (\<lambda>p. Q (fst p)) (tsd r1))) +
         sum_list (map snd (filter (\<lambda>c. Q (Truncate (fst c) Minute)) calls))"
    using Cons.IH [OF lg] by blast
  have "RecordMessages (c # calls) rlt = Inr r" using r1 r(1) by (simp add: c)
  moreover have "count r = count rlt + sum_list (map snd (c # calls))"
    using r(3) RecordMessage_fields [OF r1] by (simp add: c)
  moreover have "\<forall>Q. sum_list (map snd (filter (\<lambda>p. Q (fst p)) (tsd r))) =
         sum_list (map snd (filter (\<lambda>p. Q (fst p)) (tsd rlt))) +
         sum_list (map snd (filter (\<lambda>c. Q (Truncate (fst c) Minute)) (c # calls)))"
    using r(4) RecordMessage_sum [OF r1] by (simp add: c)
  ultimately show ?case using r(2) by blast
qed

subsection \<open>Claims about the token\<close>

text \<open>Claim C3. The total of a token equals the sum of the values stored in its bucket
  map: this holds for a token made by \<open>NewRatelimitToken\<close>, every \<open>RecordMessage\<close>
  that returns and every \<open>Prune\<close> that returns preserve it, and so \<open>Count\<close> equals
  the sum of the bucket values in every reachable token state.\<close>

theorem token_total_invariant:
  "count (NewRatelimitToken k) = bucket_sum (NewRatelimitToken k)
   \<and> (\<forall>ts n t t'. count t = bucket_sum t \<longrightarrow> RecordMessage ts n t = Inr t'
         \<longrightarrow> count t' = bucket_sum t')
   \<and> (\<forall>lim t t'. count t = bucket_sum t \<longrightarrow> Prune lim t = Inr t'
         \<longrightarrow> count t' = bucket_sum t')
   \<and> (\<forall>t. reachable t \<longrightarrow> Count t = bucket_sum t)"
  using RecordMessage_invariant Prune_invariant reachable_invariant
  by (auto simp: NewRatelimitToken_def bucket_sum_def Count_def)

theorem token_total_invariant_witness:
  "RecordMessage 61000000000 3
     \<lparr>key = ''a@x.com'', tsd = [], count = 0, sliceCount = 0, rlt_logger = Some (Logger 0)\<rparr>
   = Inr \<lparr>key = ''a@x.com'', tsd = [(60000000000, 3)], count = 3, sliceCount = 1,
          rlt_logger = Some (Logger 0)\<rparr>
   \<and> Prune 120000000000
       \<lparr>key = ''a@x.com'', tsd = [(60000000000, 3)], count = 3, sliceCount = 1,
        rlt_logger = Some (Logger 0)\<rparr>
     = Inr \<lparr>key = ''a@x.com'', tsd = [], count = 0, sliceCount = 0,
          rlt_logger = Some (Logger 0)\<rparr>
   \<and> reachable \<lparr>key = ''a@x.com'', tsd = [], count = 0, sliceCount = 0,
          rlt_logger = Some (Logger 0)\<rparr>
   \<and> count \<lparr>key = ''a@x.com'', tsd = [(60000000000, 3)], count = 3, sliceCount = 1,
          rlt_logger = Some (Logger 0)\<rparr>
     = bucket_sum \<lparr>key = ''a@x.com'', tsd = [(60000000000, 3)], count = 3, sliceCount = 1,
          rlt_logger = Some (Logger 0)\<rparr>
   \<and> Count \<lparr>key = ''a@x.com'', tsd = [], count = 0, sliceCount = 0,
          rlt_logger = Some (Logger 0)\<rparr>
     = bucket_sum \<lparr>key = ''a@x.com'', tsd = [], count = 0, sliceCount = 0,
          rlt_logger = Some (Logger 0)\<rparr>"
proof -
  let ?t0 = "\<lparr>key = ''a@x.com'', tsd = [], count = 0, sliceCount = 0,
              rlt_logger = Some (Logger 0)\<rparr>"
  let ?t1 = "\<lparr>key = ''a@x.com'', tsd = [(60000000000, 3)], count = 3, sliceCount = 1,
              rlt_logger = Some (Logger 0)\<rparr>"
  have t0: "?t0 = SetLogger_rlt (Some (Logger 0)) (NewRatelimitToken ''a@x.com'')"
    by (simp add: SetLogger_rlt_def NewRatelimitToken_def)
  have r0: "reachable ?t0"
    unfolding t0 by (intro reachable.logger reachable.fresh)
  have i0: "count ?t0 = bucket_sum ?t0" by (simp add: bucket_sum_def)
  have rec: "RecordMessage 61000000000 3 ?t0 = Inr ?t1"
    by (simp add: RecordMessage_def Truncate_def Minute_def)
  have i1: "count ?t1 = bucket_sum ?t1"
    using token_total_invariant [of "''a@x.com''"] i0 rec by blast
  have pr: "Prune 120000000000 ?t1 = Inr ?t0"
    by (simp add: Prune_def)
  have "Count ?t0 = bucket_sum ?t0"
    using token_total_invariant [of "''a@x.com''"] r0 by blast
  then show ?thesis using rec pr r0 i1 by blast
qed

text \<open>Claim C2. Take a token made by \<open>NewRatelimitToken\<close> and given a logger, any
  finite sequence \<open>calls\<close> of \<open>RecordMessage\<close> (timestamp, recipient count) calls, and
  one \<open>Prune\<close> at \<open>cutoff\<close>. Both return, and \<open>Count\<close> is then the sum of the recipient
  counts of exactly the calls whose timestamp truncated to the minute is at or after the
  cutoff. \<open>Prune\<close> does what \<open>prune_spec\<close> says: it keeps precisely the buckets whose key
  is not strictly before the cutoff and subtracts the values of the others from the total.
  Sums are those of Go's \<open>int\<close>, so they wrap.\<close>

theorem prune_after_records:
  "\<exists>t1 t2. RecordMessages calls (SetLogger_rlt (Some l) (NewRatelimitToken k)) = Inr t1
     \<and> Prune cutoff t1 = Inr t2
     \<and> Count t2 = sum_list (map snd (filter (\<lambda>c. cutoff \<le> Truncate (fst c) Minute) calls))
     \<and> t2 = prune_spec cutoff t1
     \<and> tsd t2 = filter (\<lambda>p. \<not> fst p < cutoff) (tsd t1)
     \<and> count t2 = count t1 - sum_list (map snd (filter (\<lambda>p. fst p < cutoff) (tsd t1)))"
proof -
  let ?t0 = "SetLogger_rlt (Some l) (NewRatelimitToken k)"
  have lg0: "rlt_logger ?t0 = Some l" by (simp add: SetLogger_rlt_def)
  have e0: "tsd ?t0 = []" "count ?t0 = 0"
    by (simp_all add: SetLogger_rlt_def NewRatelimitToken_def)
  obtain t1 where t1: "RecordMessages calls ?t0 = Inr t1" "rlt_logger t1 = Some l"
      "count t1 = count ?t0 + sum_list (map snd calls)"
      "\<And>Q. sum_list (map snd (filter (\<lambda>p. Q (fst p)) (tsd t1))) =
         sum_list (map snd (filter (\<lambda>p. Q (fst p)) (tsd ?t0))) +
         sum_list (map snd (filter (\<lambda>c. Q (Truncate (fst c) Minute)) calls))"
    using RecordMessages_logged [OF lg0, of calls] by blast
  have pr: "Prune cutoff t1 = Inr (prune_spec cutoff t1)"
    using Prune_logged [OF t1(2)] .
  have all: "count t1 = sum_list (map snd (tsd t1))"
    using t1(3) t1(4) [of "\<lambda>_. True"] e0 by simp
  have kept: "sum_list (map snd (filter (\<lambda>p. \<not> fst p < cutoff) (tsd t1))) =
      sum_list (map snd (filter (\<lambda>c. cutoff \<le> Truncate (fst c) Minute) calls))"
    using t1(4) [of "\<lambda>t. \<not> t < cutoff"] e0 by (simp add: not_less)
  have part: "sum_list (map snd (tsd t1)) =
      sum_list (map snd (filter (\<lambda>p. fst p < cutoff) (tsd t1))) +
      sum_list (map snd (filter (\<lambda>p. \<not> fst p < cutoff) (tsd t1)))"
    using sum_list_partition [of "tsd t1" "\<lambda>p. fst p < cutoff"] .
  have ex: "expired cutoff = (\<lambda>p. fst p < cutoff)"
    by (rule ext) (simp add: expired_def)
  have cnt: "Count (prune_spec cutoff t1) =
      sum_list (map snd (filter (\<lambda>c. cutoff \<le> Truncate (fst c) Minute) calls))"
    using all part kept by (simp add: prune_spec_def Count_def ex)
  show ?thesis
    using t1(1) pr cnt by (simp add: prune_spec_def ex)
qed

theorem prune_after_records_witness:
  "\<exists>t1 t2. RecordMessages [(61000000000, 3), (125000000000, 4), (70000000000, 5)]
              (SetLogger_rlt (Some (Logger 0)) (NewRatelimitToken ''a@x.com'')) = Inr t1
     \<and> Prune 120000000000 t1 = Inr t2 \<and> Count t2 = 4"
proof -
  let ?calls = "[(61000000000, 3), (125000000000, 4), (70000000000, 5)] :: (Time \<times> goint) list"
  have s: "sum_list (map snd (filter (\<lambda>c. 120000000000 \<le> Truncate (fst c) Minute) ?calls)) = 4"
    by (simp add: Truncate_def Minute_def)
  obtain t1 t2 where
    "RecordMessages ?calls (SetLogger_rlt (Some (Logger 0)) (NewRatelimitToken ''a@x.com'')) = Inr t1"
    "Prune 120000000000 t1 = Inr t2"
    "Count t2 = sum_list (map snd (filter (\<lambda>c. 120000000000 \<le> Truncate (fst c) Minute) ?calls))"
    using prune_after_records [of ?calls "Logger 0" "''a@x.com''" 120000000000] by blast
  then show ?thesis using s by metis
qed

subsection \<open>The registry\<close>

lemma Token_found:
  "map_of (rlm_tokens rlm) k = Some t \<Longrightarrow> Token k rlm h = (t, rlm, h)"
  by (simp add: Token_def)

lemma Token_created:
  "map_of (rlm_tokens rlm) k = None \<Longrightarrow>
   Token k rlm h =
     (length h, rlm\<lparr>rlm_tokens := AList.update k (length h) (rlm_tokens rlm)\<rparr>,
      h @ [SetLogger_rlt (rlm_logger rlm) (NewRatelimitToken k)])"
  by (simp add: Token_def Let_def)

lemma Token_registered:
  "Token k rlm h = (a, rlm', h') \<Longrightarrow> map_of (rlm_tokens rlm') k = Some a"
  by (cases "map_of (rlm_tokens rlm) k")
     (auto simp: Token_created Token_found AList.update_conv')

lemma Token_keeps:
  "Token k rlm h = (a, rlm', h') \<Longrightarrow> map_of (rlm_tokens rlm) k' = Some a' \<Longrightarrow>
   map_of (rlm_tokens rlm') k' = Some a'"
  by (cases "map_of (rlm_tokens rlm) k")
     (auto simp: Token_created Token_found AList.update_conv')

lemma Token_logger:
  "Token k rlm h = (a, rlm', h') \<Longrightarrow> rlm_logger rlm' = rlm_logger rlm"
  by (cases "map_of (rlm_tokens rlm) k") (auto simp: Token_created Token_found)

lemma Token_heap:
  "Token k rlm h = (a, rlm', h') \<Longrightarrow>
   h' = h @ (if k \<in> dom (map_of (rlm_tokens rlm)) then []
             else [SetLogger_rlt (rlm_logger rlm) (NewRatelimitToken k)])"
  by (cases "map_of (rlm_tokens rlm) k") (auto simp: Token_created Token_found)

lemma Token_dom:
  "Token k rlm h = (a, rlm', h') \<Longrightarrow>
   dom (map_of (rlm_tokens rlm')) = insert k (dom (map_of (rlm_tokens rlm)))"
  by (cases "map_of (rlm_tokens rlm) k")
     (auto simp: Token_created Token_found AList.update_conv' split: if_splits)

lemma Tokens_props:
  "Tokens ks rlm h = (as, rlm', h') \<Longrightarrow>
     length as = length ks
   \<and> (\<forall>k a. map_of (rlm_tokens rlm) k = Some a \<longrightarrow> map_of (rlm_tokens rlm') k = Some a)
   \<and> (\<forall>i < length ks. map_of (rlm_tokens rlm') (ks ! i) = Some (as ! i))
   \<and> take (length h) h' = h
   \<and> length h' = length h + card (set ks - dom (map_of (rlm_tokens rlm)))"
proof (induction ks arbitrary: rlm h as)
  case Nil
  then show ?case by simp
next
  case (Cons k ks)
  obtain a rlm1 h1 where tok: "Token k rlm h = (a, rlm1, h1)"
    by (cases "Token k rlm h")
  obtain as2 where rest: "Tokens ks rlm1 h1 = (as2, rlm', h')" and as: "as = a # as2"
    using Cons.prems tok by (auto split: prod.splits)
  note IH = Cons.IH [OF rest]
  have reg: "map_of (rlm_tokens rlm1) k = Some a" using Token_registered [OF tok] .
  have len: "length as = length (k # ks)" using IH as by simp
  have keep: "\<forall>k' a'. map_of (rlm_tokens rlm) k' = Some a' \<longrightarrow> map_of (rlm_tokens rlm') k' = Some a'"
    using Token_keeps [OF tok] IH by blast
  have look: "\<forall>i < length (k # ks). map_of (rlm_tokens rlm') ((k # ks) ! i) = Some (as ! i)"
  proof (intro allI impI)
    fix i assume "i < length (k # ks)"
    then show "map_of (rlm_tokens rlm') ((k # ks) ! i) = Some (as ! i)"
      using IH reg as by (cases i) auto
  qed
  have h1: "h1 = h @ (if k \<in> dom (map_of (rlm_tokens rlm)) then []
             else [SetLogger_rlt (rlm_logger rlm) (NewRatelimitToken k)])"
    using Token_heap [OF tok] .
  have tk: "take (length h) h' = h"
  proof -
    have "take (length h) (take (length h1) h') = take (length h) h1" using IH by simp
    then show ?thesis using h1 by (simp add: min_def split: if_splits)
  qed
  have d1: "dom (map_of (rlm_tokens rlm1)) = insert k (dom (map_of (rlm_tokens rlm)))"
    using Token_dom [OF tok] .
  have cardeq: "length h1 + card (set ks - dom (map_of (rlm_tokens rlm1)))
      = length h + card (set (k # ks) - dom (map_of (rlm_tokens rlm)))"
  proof (cases "k \<in> dom (map_of (rlm_tokens rlm))")
    case True
    then have "set (k # ks) - dom (map_of (rlm_tokens rlm)) = set ks - dom (map_of (rlm_tokens rlm1))"
      using d1 by auto
    then show ?thesis using h1 True by simp
  next
    case False
    then have "set (k # ks) - dom (map_of (rlm_tokens rlm))
        = insert k (set ks - dom (map_of (rlm_tokens rlm1)))"
      using d1 by auto
    moreover have "k \<notin> set ks - dom (map_of (rlm_tokens rlm1))" using d1 by simp
    ultimately show ?thesis using h1 False by simp
  qed
  show ?case using len keep look tk cardeq IH by simp
qed

text \<open>Claim C9. \<open>Token\<close> returns the registered token when the key has one, and leaves
  registry and store as they are; otherwise it creates a token for the key, registers it
  and returns it. It never overwrites an entry. So a second call with the same key returns
  the same instance, and along any sequence of calls equal keys get equal pointers, every
  key ends up registered to the pointer returned for it, the objects already in the store
  stay, and exactly one object is created per key that was not registered before.\<close>

theorem Token_get_or_create:
  "(\<forall>t. map_of (rlm_tokens rlm) k = Some t \<longrightarrow> Token k rlm h = (t, rlm, h))
   \<and> (map_of (rlm_tokens rlm) k = None \<longrightarrow>
        (\<exists>rlm' t. Token k rlm h = (length h, rlm', h @ [t])
           \<and> t = SetLogger_rlt (rlm_logger rlm) (NewRatelimitToken k)
           \<and> map_of (rlm_tokens rlm') k = Some (length h)))
   \<and> (\<forall>a rlm' h' k' a'. Token k rlm h = (a, rlm', h') \<longrightarrow>
        map_of (rlm_tokens rlm) k' = Some a' \<longrightarrow> map_of (rlm_tokens rlm') k' = Some a')
   \<and> (\<forall>a rlm' h'. Token k rlm h = (a, rlm', h') \<longrightarrow> Token k rlm' h' = (a, rlm', h'))
   \<and> (\<forall>ks as rlm' h'. Tokens ks rlm h = (as, rlm', h') \<longrightarrow>
        length as = length ks
        \<and> (\<forall>k' a'. map_of (rlm_tokens rlm) k' = Some a' \<longrightarrow> map_of (rlm_tokens rlm') k' = Some a')
        \<and> (\<forall>i < length ks. \<forall>j < length ks. ks ! i = ks ! j \<longrightarrow> as ! i = as ! j)
        \<and> (\<forall>i < length ks. map_of (rlm_tokens rlm') (ks ! i) = Some (as ! i))
        \<and> take (length h) h' = h
        \<and> length h' = length h + card (set ks - dom (map_of (rlm_tokens rlm))))"
proof (intro conjI allI impI)
  fix t assume "map_of (rlm_tokens rlm) k = Some t"
  then show "Token k rlm h = (t, rlm, h)" by (rule Token_found)
next
  assume n: "map_of (rlm_tokens rlm) k = None"
  show "\<exists>rlm' t. Token k rlm h = (length h, rlm', h @ [t])
           \<and> t = SetLogger_rlt (rlm_logger rlm) (NewRatelimitToken k)
           \<and> map_of (rlm_tokens rlm') k = Some (length h)"
    using Token_created [OF n, of h] by (simp add: AList.update_conv')
next
  fix a rlm' h' k' a'
  assume "Token k rlm h = (a, rlm', h')" "map_of (rlm_tokens rlm) k' = Some a'"
  then show "map_of (rlm_tokens rlm') k' = Some a'" by (rule Token_keeps)
next
  fix a rlm' h'
  assume "Token k rlm h = (a, rlm', h')"
  then show "Token k rlm' h' = (a, rlm', h')"
    using Token_registered Token_found by blast
next
  fix ks as rlm' h'
  assume t: "Tokens ks rlm h = (as, rlm', h')"
  note P = Tokens_props [OF t]
  show "length as = length ks" using P by simp
  show "take (length h) h' = h" using P by simp
  show "length h' = length h + card (set ks - dom (map_of (rlm_tokens rlm)))" using P by simp
  { fix k' a' assume "map_of (rlm_tokens rlm) k' = Some a'"
    then show "map_of (rlm_tokens rlm') k' = Some a'" using P by blast }
  { fix i assume "i < length ks"
    then show "map_of (rlm_tokens rlm') (ks ! i) = Some (as ! i)" using P by blast }
  { fix i j assume i: "i < length ks" and j: "j < length ks" and e: "ks ! i = ks ! j"
    have L: "\<forall>i < length ks. map_of (rlm_tokens rlm') (ks ! i) = Some (as ! i)"
      using P by blast
    have "Some (as ! i) = map_of (rlm_tokens rlm') (ks ! i)" using L i by simp
    also have "\<dots> = map_of (rlm_tokens rlm') (ks ! j)" by (simp only: e)
    also have "\<dots> = Some (as ! j)" using L j by simp
    finally show "as ! i = as ! j" by simp }
qed

theorem Token_get_or_create_witness:
  "Tokens [''a@x.com'', ''b@y.org'', ''a@x.com''] NewRatelimitTokenMap []
     = ([0, 1, 0],
        \<lparr>rlm_tokens = [(''a@x.com'', 0), (''b@y.org'', 1)], rlm_logger = None\<rparr>,
        [NewRatelimitToken ''a@x.com'', NewRatelimitToken ''b@y.org''])
   \<and> length [NewRatelimitToken ''a@x.com'', NewRatelimitToken ''b@y.org'']
       = length ([] :: RatelimitToken list)
         + card (set [''a@x.com'', ''b@y.org'', ''a@x.com'']
                 - dom (map_of (rlm_tokens NewRatelimitTokenMap)))
   \<and> Token ''a@x.com'' \<lparr>rlm_tokens = [(''a@x.com'', 0), (''b@y.org'', 1)], rlm_logger = None\<rparr>
        [NewRatelimitToken ''a@x.com'', NewRatelimitToken ''b@y.org'']
     = (0, \<lparr>rlm_tokens = [(''a@x.com'', 0), (''b@y.org'', 1)], rlm_logger = None\<rparr>,
        [NewRatelimitToken ''a@x.com'', NewRatelimitToken ''b@y.org''])"
proof -
  let ?ks = "[''a@x.com'', ''b@y.org'', ''a@x.com'']"
  let ?rlm = "\<lparr>rlm_tokens = [(''a@x.com'', 0), (''b@y.org'', 1)], rlm_logger = None\<rparr>"
  let ?h = "[NewRatelimitToken ''a@x.com'', NewRatelimitToken ''b@y.org'']"
  have run: "Tokens ?ks NewRatelimitTokenMap [] = ([0, 1, 0], ?rlm, ?h)"
    by (simp add: Token_def NewRatelimitTokenMap_def SetLogger_rlt_def NewRatelimitToken_def)
  note T0 = Token_get_or_create [of NewRatelimitTokenMap "''a@x.com''" "[]"]
  note seq = T0 [THEN conjunct2, THEN conjunct2, THEN conjunct2, THEN conjunct2, rule_format]
  have cnt: "length ?h = length ([] :: RatelimitToken list)
         + card (set ?ks - dom (map_of (rlm_tokens NewRatelimitTokenMap)))"
    using seq [OF run] by (elim conjE)
  have found: "map_of (rlm_tokens ?rlm) ''a@x.com'' = Some 0" by simp
  have tok: "Token ''a@x.com'' ?rlm ?h = (0, ?rlm, ?h)"
    using Token_get_or_create [of ?rlm "''a@x.com''" ?h, THEN conjunct1, rule_format, OF found] .
  show ?thesis using run cnt tok by (intro conjI)
qed

subsection \<open>The controller\<close>

lemma messagelimit_logged:
  "rsw_logger r = Some l \<Longrightarrow>
   messagelimit r d =
     Inr (case Get (domainList r) d of
            Inl e \<Rightarrow> defaultLimit r
          | Inr v \<Rightarrow> (case Atoi v of Inl e \<Rightarrow> 0 | Inr n \<Rightarrow> n))"
  by (simp add: messagelimit_def checkDomain_def getDomainLimit_def split: sum.splits)

lemma configured_entry:
  "configured w \<Longrightarrow> map_of (rlm_tokens (rsw_tokens (rsw w))) k = Some a \<Longrightarrow>
   a < length (heap w) \<and> rlt_logger (heap w ! a) \<noteq> None"
  by (auto simp: configured_def dest!: map_of_SomeD)

lemma Token_configured:
  assumes "configured w" and "Token sender (rsw_tokens (rsw w)) (heap w) = (a, rlm', h')"
  shows "a < length h'" and "h' ! a = senderToken w sender"
    and "rlt_logger (h' ! a) \<noteq> None"
    and "map_of (rlm_tokens rlm') sender = Some a"
proof -
  show reg: "map_of (rlm_tokens rlm') sender = Some a"
    using Token_registered [OF assms(2)] .
  show "a < length h'" "h' ! a = senderToken w sender" "rlt_logger (h' ! a) \<noteq> None"
  proof (atomize (full), cases "map_of (rlm_tokens (rsw_tokens (rsw w))) sender")
    case None
    then show "a < length h' \<and> h' ! a = senderToken w sender \<and> rlt_logger (h' ! a) \<noteq> None"
      using assms Token_created [OF None, of "heap w"]
      by (auto simp: senderToken_def tokenOf_def configured_def SetLogger_rlt_def)
  next
    case (Some b)
    then show "a < length h' \<and> h' ! a = senderToken w sender \<and> rlt_logger (h' ! a) \<noteq> None"
      using assms Token_found [OF Some, of "heap w"] configured_entry [OF assms(1) Some]
      by (auto simp: senderToken_def tokenOf_def)
  qed
qed

lemma RateLimit_whitelisted:
  "rsw_logger (rsw w) = Some l \<Longrightarrow> whitelisted (rsw w) sender \<Longrightarrow>
   RateLimit now sender recips w = Inr (permitAction, w)"
  by (auto simp: RateLimit_def whitelisted_def Let_def)

lemma RateLimit_limited:
  assumes cfg: "configured w"
    and nw: "\<not> whitelisted (rsw w) sender"
    and tok: "Token sender (rsw_tokens (rsw w)) (heap w) = (a, rlm', h')"
    and lim: "messagelimit (rsw w) (senderDomain sender) = Inr lim"
  shows "RateLimit now sender recips w =
     (if lim <s count (pruned_token now sender w) + normalized recips
      then Inr (deferAction (deferMessage (rsw w)),
                \<lparr>rsw = (rsw w)\<lparr>rsw_tokens := rlm'\<rparr>,
                 heap = h'[a := pruned_token now sender w]\<rparr>)
      else andThen (RecordMessage now (normalized recips) (pruned_token now sender w)) (\<lambda>t2.
             Inr (permitAction,
                  \<lparr>rsw = (rsw w)\<lparr>rsw_tokens := rlm'\<rparr>, heap = h'[a := t2]\<rparr>)))"
proof -
  obtain l where l: "rsw_logger (rsw w) = Some l" using cfg by (auto simp: configured_def)
  note T = Token_configured [OF cfg tok]
  obtain l' where l': "rlt_logger (h' ! a) = Some l'" using T(3) by auto
  have pr: "Prune (Add now (interval (rsw w))) (h' ! a) = Inr (pruned_token now sender w)"
    using Prune_logged [OF l'] T(2) by (simp add: pruned_token_def)
  show ?thesis
    using nw l tok lim T(1) pr
    by (simp add: RateLimit_def whitelisted_def Let_def deref_def Count_def normalized_def)
qed

lemma pruned_token_logger:
  "configured w \<Longrightarrow> rlt_logger (pruned_token now sender w) \<noteq> None"
proof -
  assume cfg: "configured w"
  obtain a rlm' h' where tok: "Token sender (rsw_tokens (rsw w)) (heap w) = (a, rlm', h')"
    by (cases "Token sender (rsw_tokens (rsw w)) (heap w)")
  show ?thesis using Token_configured [OF cfg tok]
    by (simp add: pruned_token_def prune_spec_def)
qed

lemma tokenOf_after:
  assumes "configured w" and "Token sender (rsw_tokens (rsw w)) (heap w) = (a, rlm', h')"
  shows "tokenOf \<lparr>rsw = (rsw w)\<lparr>rsw_tokens := rlm'\<rparr>, heap = h'[a := t]\<rparr> sender = Some t"
  using Token_configured [OF assms] by (simp add: tokenOf_def)

lemma set_update_subset: "set (AList.update k v al) \<subseteq> insert (k, v) (set al)"
  by (induction al) auto

lemma configured_after:
  assumes cfg: "configured w" and tok: "Token sender (rsw_tokens (rsw w)) (heap w) = (a, rlm', h')"
    and lg: "rlt_logger t \<noteq> None"
  shows "configured \<lparr>rsw = (rsw w)\<lparr>rsw_tokens := rlm'\<rparr>, heap = h'[a := t]\<rparr>"
proof -
  note T = Token_configured [OF cfg tok]
  have lgr: "rlm_logger rlm' = rlm_logger (rsw_tokens (rsw w))" using Token_logger [OF tok] .
  have ent: "\<forall>(k, b) \<in> set (rlm_tokens rlm'). b < length h' \<and> rlt_logger (h' ! b) \<noteq> None"
  proof (cases "map_of (rlm_tokens (rsw_tokens (rsw w))) sender")
    case None
    have new: "rlt_logger (SetLogger_rlt (rlm_logger (rsw_tokens (rsw w))) (NewRatelimitToken sender)) \<noteq> None"
      using cfg by (simp add: SetLogger_rlt_def configured_def)
    have "set (rlm_tokens rlm') \<subseteq> insert (sender, length (heap w)) (set (rlm_tokens (rsw_tokens (rsw w))))"
      using tok Token_created [OF None, of "heap w"]
      using set_update_subset [of sender "length (heap w)" "rlm_tokens (rsw_tokens (rsw w))"]
      by auto
    moreover have "h' = heap w @ [SetLogger_rlt (rlm_logger (rsw_tokens (rsw w))) (NewRatelimitToken sender)]"
      using tok Token_created [OF None, of "heap w"] by simp
    ultimately show ?thesis using cfg new
      by (auto simp: configured_def nth_append)
  next
    case (Some b)
    then show ?thesis using tok Token_found [OF Some, of "heap w"] cfg
      by (auto simp: configured_def)
  qed
  have ent': "\<forall>(k, b) \<in> set (rlm_tokens rlm').
      b < length (h'[a := t]) \<and> rlt_logger (h'[a := t] ! b) \<noteq> None"
  proof (clarify)
    fix k b assume kb: "(k, b) \<in> set (rlm_tokens rlm')"
    then have b: "b < length h'" "rlt_logger (h' ! b) \<noteq> None" using ent by auto
    show "b < length (h'[a := t]) \<and> rlt_logger (h'[a := t] ! b) \<noteq> None"
      using b lg by (cases "b = a") (simp_all add: nth_list_update)
  qed
  show ?thesis
    using cfg lgr ent' by (simp add: configured_def)
qed

lemma checkWhiteList_iff: "checkWhiteList r k \<longleftrightarrow> k \<in> fst ` set (whiteList r)"
proof (cases "map_of (whiteList r) k")
  case None
  then have "k \<notin> fst ` set (whiteList r)" by (simp add: map_of_eq_None_iff)
  then show ?thesis using None by (simp add: checkWhiteList_def Get_def)
next
  case (Some v)
  then have "k \<in> dom (map_of (whiteList r))" by auto
  then have "k \<in> fst ` set (whiteList r)" by (simp add: dom_map_of_conv_image_fst)
  then show ?thesis using Some by (simp add: checkWhiteList_def Get_def)
qed

lemma prune_spec_nothing:
  "filter (expired lim) (tsd t) = [] \<Longrightarrow> prune_spec lim t = t"
proof -
  assume e: "filter (expired lim) (tsd t) = []"
  then have "\<forall>p \<in> set (tsd t). \<not> expired lim p" by (simp add: filter_empty_conv)
  then have "filter (\<lambda>p. \<not> expired lim p) (tsd t) = tsd t" by (simp add: filter_id_conv)
  then show ?thesis using e by (simp add: prune_spec_def)
qed

lemma RateLimit_deferred:
  assumes cfg: "configured w"
    and nw: "\<not> whitelisted (rsw w) sender"
    and lim: "messagelimit (rsw w) (senderDomain sender) = Inr lim"
    and over: "lim <s count (pruned_token now sender w) + normalized recips"
  shows "\<exists>w'. RateLimit now sender recips w = Inr (deferAction (deferMessage (rsw w)), w')
           \<and> tokenOf w' sender = Some (pruned_token now sender w) \<and> configured w'"
proof -
  obtain a rlm' h' where tok: "Token sender (rsw_tokens (rsw w)) (heap w) = (a, rlm', h')"
    by (cases "Token sender (rsw_tokens (rsw w)) (heap w)")
  let ?w' = "\<lparr>rsw = (rsw w)\<lparr>rsw_tokens := rlm'\<rparr>, heap = h'[a := pruned_token now sender w]\<rparr>"
  have "RateLimit now sender recips w = Inr (deferAction (deferMessage (rsw w)), ?w')"
    using RateLimit_limited [OF cfg nw tok lim, of now recips] over by simp
  moreover have "tokenOf ?w' sender = Some (pruned_token now sender w)"
    using tokenOf_after [OF cfg tok] .
  moreover have "configured ?w'"
    using configured_after [OF cfg tok pruned_token_logger [OF cfg]] .
  ultimately show ?thesis by blast
qed

lemma RateLimit_permitted:
  assumes cfg: "configured w"
    and nw: "\<not> whitelisted (rsw w) sender"
    and lim: "messagelimit (rsw w) (senderDomain sender) = Inr lim"
    and under: "\<not> lim <s count (pruned_token now sender w) + normalized recips"
  shows "\<exists>w' t'. RateLimit now sender recips w = Inr (permitAction, w')
           \<and> RecordMessage now (normalized recips) (pruned_token now sender w) = Inr t'
           \<and> tokenOf w' sender = Some t' \<and> configured w'"
proof -
  obtain a rlm' h' where tok: "Token sender (rsw_tokens (rsw w)) (heap w) = (a, rlm', h')"
    by (cases "Token sender (rsw_tokens (rsw w)) (heap w)")
  obtain l where l: "rlt_logger (pruned_token now sender w) = Some l"
    using pruned_token_logger [OF cfg, of now sender] by auto
  obtain t' where t': "RecordMessage now (normalized recips) (pruned_token now sender w) = Inr t'"
    using RecordMessage_logged [OF l] by blast
  have lg: "rlt_logger t' \<noteq> None" using RecordMessage_fields [OF t'] l by simp
  let ?w' = "\<lparr>rsw = (rsw w)\<lparr>rsw_tokens := rlm'\<rparr>, heap = h'[a := t']\<rparr>"
  have "RateLimit now sender recips w = Inr (permitAction, ?w')"
    using RateLimit_limited [OF cfg nw tok lim, of now recips] under t' by simp
  moreover have "tokenOf ?w' sender = Some t'"
    using tokenOf_after [OF cfg tok] .
  moreover have "configured ?w'"
    using configured_after [OF cfg tok lg] .
  ultimately show ?thesis using t' by blast
qed

lemma example_configured [simp]:
  "configured \<lparr>rsw = example_rsw wl dl [], heap = []\<rparr>"
  "configured \<lparr>rsw = example_rsw wl dl [(k, 0)], heap = [example_token k' b n]\<rparr>"
  by (simp_all add: configured_def example_rsw_def example_token_def)

lemma example_pruned:
  "pruned_token 1000000000000 k \<lparr>rsw = example_rsw wl dl [], heap = []\<rparr>
     = example_token k [] 0"
  "pruned_token 1000000000000 k
       \<lparr>rsw = example_rsw wl dl [(k, 0)], heap = [example_token k [(960000000000, n)] n]\<rparr>
     = example_token k [(960000000000, n)] n"
  by (simp_all add: pruned_token_def senderToken_def tokenOf_def prune_spec_def expired_def
        Add_def example_rsw_def example_token_def SetLogger_rlt_def NewRatelimitToken_def)

lemma example_sender [simp]:
  "senderDomain ''a@x.com'' = ''x.com''"
  "senderDomain ''u@biz.com'' = ''biz.com''"
  by (simp_all add: senderDomain_def)

subsection \<open>Claims about the decision\<close>

text \<open>Claim C1. For every sender and recipient count, on a configured controller and a
  sender that is not whitelisted: if the projected count, that is the count of the sender's
  token after pruning plus the normalized recipient count, is strictly greater than the
  effective limit, then \<open>RateLimit\<close> returns exactly the defer string, and the sender's
  token is left as the pruning step made it: nothing is recorded, so the count is the one
  the projection used. When no bucket of the token was expired, the token is exactly the
  one from before the call.\<close>

theorem RateLimit_defer_no_quota:
  assumes "configured w"
    and "\<not> whitelisted (rsw w) sender"
    and "messagelimit (rsw w) (senderDomain sender) = Inr lim"
    and "lim <s count (pruned_token now sender w) + normalized recips"
  shows "\<exists>w'. RateLimit now sender recips w =
               Inr (''action=defer_if_permit '' @ deferMessage (rsw w) @ [CHR 0x0A, CHR 0x0A], w')
           \<and> tokenOf w' sender = Some (pruned_token now sender w)
           \<and> (\<forall>t. tokenOf w sender = Some t
                  \<and> filter (expired (Add now (interval (rsw w)))) (tsd t) = []
                \<longrightarrow> tokenOf w' sender = Some t)"
proof -
  obtain w' where w': "RateLimit now sender recips w = Inr (deferAction (deferMessage (rsw w)), w')"
      "tokenOf w' sender = Some (pruned_token now sender w)"
    using RateLimit_deferred [OF assms] by blast
  have "tokenOf w' sender = Some t"
    if "tokenOf w sender = Some t" "filter (expired (Add now (interval (rsw w)))) (tsd t) = []" for t
    using that w'(2) prune_spec_nothing [OF that(2)]
    by (simp add: pruned_token_def senderToken_def)
  then show ?thesis using w' by (auto simp: deferAction_def)
qed

theorem RateLimit_defer_no_quota_witness:
  "RateLimit 1000000000000 ''a@x.com'' 50 \<lparr>rsw = example_rsw [] [] [], heap = []\<rparr>
     = Inr (permitAction,
            \<lparr>rsw = example_rsw [] [] [(''a@x.com'', 0)],
             heap = [example_token ''a@x.com'' [(960000000000, 50)] 50]\<rparr>)
   \<and> (\<exists>w'. RateLimit 1000000000000 ''a@x.com'' 80
              \<lparr>rsw = example_rsw [] [] [(''a@x.com'', 0)],
               heap = [example_token ''a@x.com'' [(960000000000, 50)] 50]\<rparr>
            = Inr (''action=defer_if_permit rate limit exceeded'' @ [CHR 0x0A, CHR 0x0A], w')
          \<and> tokenOf w' ''a@x.com'' = Some (example_token ''a@x.com'' [(960000000000, 50)] 50))
   \<and> Count (example_token ''a@x.com'' [(960000000000, 50)] 50) = 50"
proof -
  let ?w0 = "\<lparr>rsw = example_rsw [] [] [], heap = []\<rparr>"
  let ?t = "example_token ''a@x.com'' [(960000000000, 50)] 50"
  let ?w1 = "\<lparr>rsw = example_rsw [] [] [(''a@x.com'', 0)], heap = [?t]\<rparr>"
  have first: "RateLimit 1000000000000 ''a@x.com'' 50 ?w0 = Inr (permitAction, ?w1)"
    by (simp add: RateLimit_def example_rsw_def example_token_def checkWhiteList_def Get_def
          messagelimit_def checkDomain_def Token_def deref_def Prune_def Count_def
          RecordMessage_def Truncate_def Minute_def Add_def SetLogger_rlt_def NewRatelimitToken_def
          Let_def)
  have cfg: "configured ?w1" by simp
  have nw: "\<not> whitelisted (rsw ?w1) ''a@x.com''"
    by (simp add: whitelisted_def checkWhiteList_def Get_def example_rsw_def)
  have lim: "messagelimit (rsw ?w1) (senderDomain ''a@x.com'') = Inr 120"
    by (simp add: messagelimit_def checkDomain_def Get_def example_rsw_def)
  have p: "pruned_token 1000000000000 ''a@x.com'' ?w1 = ?t"
    by (rule example_pruned)
  have over: "120 <s count (pruned_token 1000000000000 ''a@x.com'' ?w1) + normalized 80"
    unfolding p by (simp add: normalized_def example_token_def)
  have "\<exists>w'. RateLimit 1000000000000 ''a@x.com'' 80 ?w1
            = Inr (''action=defer_if_permit rate limit exceeded'' @ [CHR 0x0A, CHR 0x0A], w')
          \<and> tokenOf w' ''a@x.com'' = Some ?t"
  proof -
    obtain w' where w': "RateLimit 1000000000000 ''a@x.com'' 80 ?w1 =
        Inr (''action=defer_if_permit '' @ deferMessage (rsw ?w1) @ [CHR 0x0A, CHR 0x0A], w')"
      "tokenOf w' ''a@x.com'' = Some (pruned_token 1000000000000 ''a@x.com'' ?w1)"
      using RateLimit_defer_no_quota [OF cfg nw lim over] by blast
    have dm: "deferMessage (rsw ?w1) = ''rate limit exceeded''" by (simp add: example_rsw_def)
    show ?thesis using w' unfolding p dm by (intro exI [of _ w']) simp
  qed
  then show ?thesis using first by (simp add: Count_def example_token_def)
qed

text \<open>Claim C5. For every sender and recipient count, if the sender or its domain is a key
  of the whitelist, \<open>RateLimit\<close> returns exactly the permit string and the world is
  unchanged: no token is fetched or created and no token is modified.\<close>

theorem RateLimit_whitelist_untouched:
  assumes "rsw_logger (rsw w) = Some l"
    and "sender \<in> fst ` set (whiteList (rsw w))
         \<or> senderDomain sender \<in> fst ` set (whiteList (rsw w))"
  shows "RateLimit now sender recips w = Inr (''action=dunno'' @ [CHR 0x0A, CHR 0x0A], w)"
  using RateLimit_whitelisted [OF assms(1), of sender now recips] assms(2)
  by (simp add: whitelisted_def checkWhiteList_iff permitAction_def)

theorem RateLimit_whitelist_untouched_witness:
  "RateLimit 1000000000000 ''boss@x.com'' 0
     \<lparr>rsw = example_rsw [(''x.com'', ''OK'')] [] [], heap = []\<rparr>
   = Inr (''action=dunno'' @ [CHR 0x0A, CHR 0x0A],
          \<lparr>rsw = example_rsw [(''x.com'', ''OK'')] [] [], heap = []\<rparr>)"
proof -
  let ?w = "\<lparr>rsw = example_rsw [(''x.com'', ''OK'')] [] [], heap = []\<rparr>"
  have l: "rsw_logger (rsw ?w) = Some (Logger 0)" by (simp add: example_rsw_def)
  have wl: "''boss@x.com'' \<in> fst ` set (whiteList (rsw ?w))
         \<or> senderDomain ''boss@x.com'' \<in> fst ` set (whiteList (rsw ?w))"
    by (simp add: example_rsw_def senderDomain_def)
  show ?thesis using RateLimit_whitelist_untouched [OF l wl] .
qed

text \<open>Claim C6. For a sender that is not whitelisted, a call with recipient count 0 has
  the same result and the same effect as a call with recipient count 1; when it is
  accepted, the count of the sender's token is the pruned count plus one.\<close>

theorem RateLimit_zero_recipients:
  assumes "configured w" and "\<not> whitelisted (rsw w) sender"
  shows "RateLimit now sender 0 w = RateLimit now sender 1 w
       \<and> (\<forall>lim. messagelimit (rsw w) (senderDomain sender) = Inr lim
              \<and> \<not> lim <s count (pruned_token now sender w) + 1
            \<longrightarrow> (\<exists>w' t'. RateLimit now sender 0 w = Inr (permitAction, w')
                    \<and> tokenOf w' sender = Some t'
                    \<and> Count t' = count (pruned_token now sender w) + 1))"
proof (intro conjI allI impI)
  obtain l where l: "rsw_logger (rsw w) = Some l" using assms(1) by (auto simp: configured_def)
  show "RateLimit now sender 0 w = RateLimit now sender 1 w"
    using l by (simp add: RateLimit_def)
next
  fix lim
  assume a: "messagelimit (rsw w) (senderDomain sender) = Inr lim
              \<and> \<not> lim <s count (pruned_token now sender w) + 1"
  then have u: "\<not> lim <s count (pruned_token now sender w) + normalized 0"
    by (simp add: normalized_def)
  obtain w' t' where r: "RateLimit now sender 0 w = Inr (permitAction, w')"
      "RecordMessage now (normalized 0) (pruned_token now sender w) = Inr t'"
      "tokenOf w' sender = Some t'"
    using RateLimit_permitted [OF assms conjunct1 [OF a] u] by blast
  have "Count t' = count (pruned_token now sender w) + 1"
    using RecordMessage_fields [OF r(2)] by (simp add: normalized_def Count_def)
  then show "\<exists>w' t'. RateLimit now sender 0 w = Inr (permitAction, w')
                    \<and> tokenOf w' sender = Some t'
                    \<and> Count t' = count (pruned_token now sender w) + 1"
    using r by blast
qed

theorem RateLimit_zero_recipients_witness:
  "RateLimit 1000000000000 ''a@x.com'' 0 \<lparr>rsw = example_rsw [] [] [], heap = []\<rparr>
     = RateLimit 1000000000000 ''a@x.com'' 1 \<lparr>rsw = example_rsw [] [] [], heap = []\<rparr>
   \<and> (\<exists>w' t'. RateLimit 1000000000000 ''a@x.com'' 0 \<lparr>rsw = example_rsw [] [] [], heap = []\<rparr>
                 = Inr (permitAction, w')
             \<and> tokenOf w' ''a@x.com'' = Some t' \<and> Count t' = 1)"
proof -
  let ?w0 = "\<lparr>rsw = example_rsw [] [] [], heap = []\<rparr>"
  have cfg: "configured ?w0" by simp
  have nw: "\<not> whitelisted (rsw ?w0) ''a@x.com''"
    by (simp add: whitelisted_def checkWhiteList_def Get_def example_rsw_def)
  have p: "count (pruned_token 1000000000000 ''a@x.com'' ?w0) = 0"
    by (simp add: example_pruned example_token_def)
  have lim: "messagelimit (rsw ?w0) (senderDomain ''a@x.com'') = Inr 120
      \<and> \<not> 120 <s count (pruned_token 1000000000000 ''a@x.com'' ?w0) + 1"
    unfolding p
    by (simp add: messagelimit_def checkDomain_def Get_def example_rsw_def word_sless_alt)
  note T = RateLimit_zero_recipients [OF cfg nw, of 1000000000000]
  have "\<exists>w' t'. RateLimit 1000000000000 ''a@x.com'' 0 ?w0 = Inr (permitAction, w')
             \<and> tokenOf w' ''a@x.com'' = Some t'
             \<and> Count t' = count (pruned_token 1000000000000 ''a@x.com'' ?w0) + 1"
    using T [THEN conjunct2, rule_format, OF lim] .
  then have "\<exists>w' t'. RateLimit 1000000000000 ''a@x.com'' 0 ?w0 = Inr (permitAction, w')
             \<and> tokenOf w' ''a@x.com'' = Some t' \<and> Count t' = 1"
    unfolding p by simp
  then show ?thesis using T [THEN conjunct1] by simp
qed

subsection \<open>The domain of a sender\<close>








subsection \<open>Signed arithmetic of Go's int\<close>

lemma sint_add_exact:
  fixes a b :: goint
  assumes "- (2 ^ 63) \<le> sint a + sint b" and "sint a + sint b < 2 ^ 63"
  shows "sint (a + b) = sint a + sint b"
proof -
  have "sint (a + b) = signed_take_bit 63 (sint a + sint b)"
    by (simp add: sint_word_ariths)
  also have "\<dots> = sint a + sint b"
    using assms by (simp add: signed_take_bit_int_eq_self)
  finally show ?thesis .
qed

lemma sint_bounds64:
  fixes a :: goint
  shows "- (2 ^ 63) \<le> sint a" and "sint a < 2 ^ 63"
  using sint_ge [of a] sint_lt [of a] by simp_all

lemma add_negative_decreases:
  fixes a b :: goint
  assumes "b <s 0" and "- (2 ^ 63) \<le> sint a + sint b"
  shows "a + b <s a"
proof -
  have b: "sint b < 0" using assms(1) by (simp add: word_sless_alt)
  have "sint a + sint b < 2 ^ 63" using b sint_bounds64(2) [of a] by linarith
  then have "sint (a + b) = sint a + sint b" using assms(2) by (rule sint_add_exact [rotated])
  then show ?thesis using b by (simp add: word_sless_alt)
qed

lemma add_positive_exceeds_zero:
  fixes a b :: goint
  assumes "0 \<le> sint a" and "0 < sint b" and "sint a + sint b < 2 ^ 63"
  shows "0 <s a + b"
proof -
  have "- (2 ^ 63) \<le> (0::int)" by simp
  then have "- (2 ^ 63) \<le> sint a + sint b" using assms(1,2) by linarith
  then have "sint (a + b) = sint a + sint b" using assms(3) by (rule sint_add_exact)
  then show ?thesis using assms(1,2) by (simp add: word_sless_alt)
qed

lemma permit_not_defer: "permitAction \<noteq> deferAction m"
  by (simp add: permitAction_def deferAction_def)

subsection \<open>Negative recipient counts\<close>

text \<open>Claim C10. A strictly negative recipient count is passed through as it is: only 0
  is bumped to 1. The projected count is the pruned count plus the negative number; the
  request is deferred when that exceeds the limit and permitted otherwise, and on permit
  \<open>RecordMessage\<close> adds the negative number to the bucket and to the total. So the count
  of a token decreases (whenever the sum does not wrap around), and it can become
  negative.\<close>

theorem RateLimit_negative_recipients:
  assumes "configured w"
    and "\<not> whitelisted (rsw w) sender"
    and "messagelimit (rsw w) (senderDomain sender) = Inr lim"
    and "recips <s 0"
  shows "normalized recips = recips
     \<and> (lim <s count (pruned_token now sender w) + recips \<longrightarrow>
          (\<exists>w'. RateLimit now sender recips w = Inr (deferAction (deferMessage (rsw w)), w')))
     \<and> (\<not> lim <s count (pruned_token now sender w) + recips \<longrightarrow>
          (\<exists>w' t'. RateLimit now sender recips w = Inr (permitAction, w')
             \<and> RecordMessage now recips (pruned_token now sender w) = Inr t'
             \<and> tokenOf w' sender = Some t'
             \<and> Count t' = count (pruned_token now sender w) + recips
             \<and> bucket_sum t' = bucket_sum (pruned_token now sender w) + recips
             \<and> (- (2 ^ 63) \<le> sint (count (pruned_token now sender w)) + sint recips
                  \<longrightarrow> Count t' <s count (pruned_token now sender w))))
     \<and> (\<exists>w0 now0 s0 n0 w' t'. configured w0 \<and> n0 <s 0
           \<and> RateLimit now0 s0 n0 w0 = Inr (permitAction, w')
           \<and> tokenOf w' s0 = Some t' \<and> Count t' <s 0)"
proof (intro conjI impI)
  have nz: "recips \<noteq> 0" using assms(4) by auto
  then show n: "normalized recips = recips" by (simp add: normalized_def)
  show "\<exists>w'. RateLimit now sender recips w = Inr (deferAction (deferMessage (rsw w)), w')"
    if "lim <s count (pruned_token now sender w) + recips"
    using RateLimit_deferred [OF assms(1-3), of now recips] that n by auto
  show "\<exists>w' t'. RateLimit now sender recips w = Inr (permitAction, w')
             \<and> RecordMessage now recips (pruned_token now sender w) = Inr t'
             \<and> tokenOf w' sender = Some t'
             \<and> Count t' = count (pruned_token now sender w) + recips
             \<and> bucket_sum t' = bucket_sum (pruned_token now sender w) + recips
             \<and> (- (2 ^ 63) \<le> sint (count (pruned_token now sender w)) + sint recips
                  \<longrightarrow> Count t' <s count (pruned_token now sender w))"
    if u: "\<not> lim <s count (pruned_token now sender w) + recips"
  proof -
    obtain w' t' where r: "RateLimit now sender recips w = Inr (permitAction, w')"
        "RecordMessage now recips (pruned_token now sender w) = Inr t'"
        "tokenOf w' sender = Some t'"
      using RateLimit_permitted [OF assms(1-3), of now recips] u n by auto
    have c: "Count t' = count (pruned_token now sender w) + recips"
      using RecordMessage_fields [OF r(2)] by (simp add: Count_def)
    have b: "bucket_sum t' = bucket_sum (pruned_token now sender w) + recips"
      using RecordMessage_sum [OF r(2), of "\<lambda>_. True"] by (simp add: bucket_sum_def)
    have d: "Count t' <s count (pruned_token now sender w)"
      if "- (2 ^ 63) \<le> sint (count (pruned_token now sender w)) + sint recips"
      using add_negative_decreases [OF assms(4) that] c by simp
    show ?thesis using r c b d by blast
  qed
  let ?w0 = "\<lparr>rsw = example_rsw [] [] [], heap = []\<rparr>"
  let ?w1 = "\<lparr>rsw = example_rsw [] [] [(''a@x.com'', 0)],
             heap = [example_token ''a@x.com'' [(960000000000, - 5)] (- 5)]\<rparr>"
  have run: "RateLimit 1000000000000 ''a@x.com'' (- 5) ?w0 = Inr (permitAction, ?w1)"
    by (simp add: RateLimit_def example_rsw_def example_token_def checkWhiteList_def Get_def
          messagelimit_def checkDomain_def Token_def deref_def Prune_def Count_def
          RecordMessage_def Truncate_def Minute_def Add_def SetLogger_rlt_def NewRatelimitToken_def
          Let_def)
  have "tokenOf ?w1 ''a@x.com'' = Some (example_token ''a@x.com'' [(960000000000, - 5)] (- 5))"
    by (simp add: tokenOf_def example_rsw_def)
  moreover have "Count (example_token ''a@x.com'' [(960000000000, - 5)] (- 5)) <s 0"
    by (simp add: Count_def example_token_def word_sless_alt)
  moreover have "configured ?w0" by simp
  moreover have "(- 5 :: goint) <s 0" by (simp add: word_sless_alt)
  ultimately show "\<exists>w0 now0 s0 n0 w' t'. configured w0 \<and> n0 <s 0
           \<and> RateLimit now0 s0 n0 w0 = Inr (permitAction, w')
           \<and> tokenOf w' s0 = Some t' \<and> Count t' <s 0"
    using run by blast
qed

theorem RateLimit_negative_recipients_witness:
  "\<exists>w' t'. RateLimit 1000000000000 ''a@x.com'' (- 3)
               \<lparr>rsw = example_rsw [] [] [(''a@x.com'', 0)],
                heap = [example_token ''a@x.com'' [(960000000000, 50)] 50]\<rparr>
             = Inr (permitAction, w')
      \<and> tokenOf w' ''a@x.com'' = Some t' \<and> Count t' = 47 \<and> Count t' <s 50"
proof -
  let ?t = "example_token ''a@x.com'' [(960000000000, 50)] 50"
  let ?w1 = "\<lparr>rsw = example_rsw [] [] [(''a@x.com'', 0)], heap = [?t]\<rparr>"
  have cfg: "configured ?w1" by simp
  have nw: "\<not> whitelisted (rsw ?w1) ''a@x.com''"
    by (simp add: whitelisted_def checkWhiteList_def Get_def example_rsw_def)
  have lim: "messagelimit (rsw ?w1) (senderDomain ''a@x.com'') = Inr 120"
    by (simp add: messagelimit_def checkDomain_def Get_def example_rsw_def)
  have neg: "(- 3 :: goint) <s 0" by (simp add: word_sless_alt)
  have p: "pruned_token 1000000000000 ''a@x.com'' ?w1 = ?t" by (rule example_pruned)
  have c: "count ?t = 50" by (simp add: example_token_def)
  have u: "\<not> 120 <s count (pruned_token 1000000000000 ''a@x.com'' ?w1) + (- 3 :: goint)"
    unfolding p c by simp
  note T = RateLimit_negative_recipients [OF cfg nw lim neg, of 1000000000000]
  obtain w' t' where r: "RateLimit 1000000000000 ''a@x.com'' (- 3) ?w1 = Inr (permitAction, w')"
      "tokenOf w' ''a@x.com'' = Some t'"
      "Count t' = count (pruned_token 1000000000000 ''a@x.com'' ?w1) + (- 3)"
    using T [THEN conjunct2, THEN conjunct2, THEN conjunct1, rule_format, OF u] by blast
  have "Count t' = 47" using r(3) unfolding p c by simp
  moreover from this have "Count t' <s 50" by simp
  ultimately show ?thesis using r(1,2) by blast
qed

subsection \<open>The effective limit\<close>

lemma normalized_positive:
  "0 \<le> sint recips \<Longrightarrow> 0 < sint (normalized recips)"
proof -
  assume a: "0 \<le> sint recips"
  show ?thesis
  proof (cases "recips = 0")
    case True
    then show ?thesis by (simp add: normalized_def)
  next
    case False
    then have "sint recips \<noteq> 0" by (simp add: signed_eq_0_iff)
    then show ?thesis using a False by (simp add: normalized_def)
  qed
qed

lemma RateLimit_configured_result:
  assumes cfg: "configured w"
    and nw: "\<not> whitelisted (rsw w) sender"
    and lim: "messagelimit (rsw w) (senderDomain sender) = Inr lim"
  shows "\<exists>res w'. RateLimit now sender recips w = Inr (res, w') \<and> configured w'
      \<and> (res = deferAction (deferMessage (rsw w))
            \<longleftrightarrow> lim <s count (pruned_token now sender w) + normalized recips)
      \<and> (res = permitAction
            \<longleftrightarrow> \<not> lim <s count (pruned_token now sender w) + normalized recips)"
proof (cases "lim <s count (pruned_token now sender w) + normalized recips")
  case True
  then show ?thesis
    using RateLimit_deferred [OF cfg nw lim True] permit_not_defer [of "deferMessage (rsw w)"]
    by auto
next
  case False
  then show ?thesis
    using RateLimit_permitted [OF cfg nw lim False] permit_not_defer [of "deferMessage (rsw w)"]
    by auto
qed

text \<open>Claim C7, as stated, fails in one part: with an override value that does not parse
  the limit is 0, but a request is deferred only when the projected count is above 0, and
  a negative recipient count on a new sender projects below 0, so it is permitted.\<close>

theorem domain_limit_counterexample:
  "Get (domainList (example_rsw [] [(''biz.com'', ''abc'')] [])) (senderDomain ''u@biz.com'')
     = Inr ''abc''
   \<and> Atoi ''abc'' = Inl ErrSyntax
   \<and> \<not> whitelisted (example_rsw [] [(''biz.com'', ''abc'')] []) ''u@biz.com''
   \<and> RateLimit 1000000000000 ''u@biz.com'' (- 1)
        \<lparr>rsw = example_rsw [] [(''biz.com'', ''abc'')] [], heap = []\<rparr>
     = Inr (''action=dunno'' @ [CHR 0x0A, CHR 0x0A],
            \<lparr>rsw = example_rsw [] [(''biz.com'', ''abc'')] [(''u@biz.com'', 0)],
             heap = [example_token ''u@biz.com'' [(960000000000, - 1)] (- 1)]\<rparr>)"
  by (simp add: RateLimit_def example_rsw_def example_token_def checkWhiteList_def Get_def
        messagelimit_def checkDomain_def getDomainLimit_def Atoi_def Token_def deref_def
        Prune_def Count_def RecordMessage_def Truncate_def Minute_def Add_def SetLogger_rlt_def
        NewRatelimitToken_def whitelisted_def permitAction_def Let_def word_sless_alt)

text \<open>Claim C7, amended. For every sender that is not whitelisted, on a configured
  controller: when the domain is a key of the override map and its value parses as an
  integer, that integer is the effective limit; when the domain is not a key, the limit
  is \<open>defaultLimit\<close>; when the value does not parse, the limit is 0, \<open>RateLimit\<close> still
  returns a decision (the parse failure is not raised), and the request is deferred exactly
  when the pruned count plus the normalized recipient count is above 0: always when count
  and recipient count are not negative and their sum does not wrap around.\<close>

theorem domain_limit_resolution:
  assumes "configured w" and "\<not> whitelisted (rsw w) sender"
  shows
    "(\<forall>d v. Get (domainList (rsw w)) (senderDomain sender) = Inr d \<and> Atoi d = Inr v
        \<longrightarrow> messagelimit (rsw w) (senderDomain sender) = Inr v)
   \<and> (\<forall>e. Get (domainList (rsw w)) (senderDomain sender) = Inl e
        \<longrightarrow> messagelimit (rsw w) (senderDomain sender) = Inr (defaultLimit (rsw w)))
   \<and> (\<forall>d e. Get (domainList (rsw w)) (senderDomain sender) = Inr d \<and> Atoi d = Inl e
        \<longrightarrow> messagelimit (rsw w) (senderDomain sender) = Inr 0
          \<and> (\<exists>res w'. RateLimit now sender recips w = Inr (res, w')
                \<and> (res = deferAction (deferMessage (rsw w))
                      \<longleftrightarrow> 0 <s count (pruned_token now sender w) + normalized recips)
                \<and> (res = permitAction
                      \<longleftrightarrow> \<not> 0 <s count (pruned_token now sender w) + normalized recips))
          \<and> (0 \<le> sint (count (pruned_token now sender w)) \<and> 0 \<le> sint recips
               \<and> sint (count (pruned_token now sender w)) + sint (normalized recips) < 2 ^ 63
              \<longrightarrow> (\<exists>w'. RateLimit now sender recips w
                          = Inr (deferAction (deferMessage (rsw w)), w'))))"
proof -
  obtain l where l: "rsw_logger (rsw w) = Some l" using assms(1) by (auto simp: configured_def)
  note M = messagelimit_logged [OF l, of "senderDomain sender"]
  have c1: "messagelimit (rsw w) (senderDomain sender) = Inr v"
    if "Get (domainList (rsw w)) (senderDomain sender) = Inr d \<and> Atoi d = Inr v" for d v
    using M that by simp
  have c2: "messagelimit (rsw w) (senderDomain sender) = Inr (defaultLimit (rsw w))"
    if "Get (domainList (rsw w)) (senderDomain sender) = Inl e" for e
    using M that by simp
  have c3: "messagelimit (rsw w) (senderDomain sender) = Inr 0
          \<and> (\<exists>res w'. RateLimit now sender recips w = Inr (res, w')
                \<and> (res = deferAction (deferMessage (rsw w))
                      \<longleftrightarrow> 0 <s count (pruned_token now sender w) + normalized recips)
                \<and> (res = permitAction
                      \<longleftrightarrow> \<not> 0 <s count (pruned_token now sender w) + normalized recips))
          \<and> (0 \<le> sint (count (pruned_token now sender w)) \<and> 0 \<le> sint recips
               \<and> sint (count (pruned_token now sender w)) + sint (normalized recips) < 2 ^ 63
              \<longrightarrow> (\<exists>w'. RateLimit now sender recips w
                          = Inr (deferAction (deferMessage (rsw w)), w')))"
    if g: "Get (domainList (rsw w)) (senderDomain sender) = Inr d \<and> Atoi d = Inl e" for d e
  proof (intro conjI impI)
    show z: "messagelimit (rsw w) (senderDomain sender) = Inr 0" using M g by simp
    show "\<exists>res w'. RateLimit now sender recips w = Inr (res, w')
                \<and> (res = deferAction (deferMessage (rsw w))
                      \<longleftrightarrow> 0 <s count (pruned_token now sender w) + normalized recips)
                \<and> (res = permitAction
                      \<longleftrightarrow> \<not> 0 <s count (pruned_token now sender w) + normalized recips)"
      using RateLimit_configured_result [OF assms z, of now recips] by blast
    assume b: "0 \<le> sint (count (pruned_token now sender w)) \<and> 0 \<le> sint recips
               \<and> sint (count (pruned_token now sender w)) + sint (normalized recips) < 2 ^ 63"
    then have "0 <s count (pruned_token now sender w) + normalized recips"
      using add_positive_exceeds_zero [of "count (pruned_token now sender w)" "normalized recips"]
        normalized_positive [of recips] by simp
    then show "\<exists>w'. RateLimit now sender recips w = Inr (deferAction (deferMessage (rsw w)), w')"
      using RateLimit_deferred [OF assms z, of now recips] by blast
  qed
  show ?thesis using c1 c2 c3 by blast
qed

theorem domain_limit_resolution_witness:
  "messagelimit (example_rsw [] [(''biz.com'', ''5'')] []) ''biz.com'' = Inr 5
   \<and> messagelimit (example_rsw [] [(''biz.com'', ''abc'')] []) ''biz.com'' = Inr 0
   \<and> (\<exists>w'. RateLimit 1000000000000 ''u@biz.com'' 1
               \<lparr>rsw = example_rsw [] [(''biz.com'', ''abc'')] [], heap = []\<rparr>
             = Inr (deferAction ''rate limit exceeded'', w'))"
proof -
  let ?w5 = "\<lparr>rsw = example_rsw [] [(''biz.com'', ''5'')] [], heap = []\<rparr>"
  let ?wx = "\<lparr>rsw = example_rsw [] [(''biz.com'', ''abc'')] [], heap = []\<rparr>"
  have nw5: "\<not> whitelisted (rsw ?w5) ''u@biz.com''"
    by (simp add: whitelisted_def checkWhiteList_def Get_def example_rsw_def)
  have nwx: "\<not> whitelisted (rsw ?wx) ''u@biz.com''"
    by (simp add: whitelisted_def checkWhiteList_def Get_def example_rsw_def)
  have g5: "Get (domainList (rsw ?w5)) (senderDomain ''u@biz.com'') = Inr ''5''
      \<and> Atoi ''5'' = Inr 5"
    by (simp add: Get_def example_rsw_def Atoi_def)
  have gx: "Get (domainList (rsw ?wx)) (senderDomain ''u@biz.com'') = Inr ''abc''
      \<and> Atoi ''abc'' = Inl ErrSyntax"
    by (simp add: Get_def example_rsw_def Atoi_def)
  have a: "messagelimit (rsw ?w5) (senderDomain ''u@biz.com'') = Inr 5"
    using domain_limit_resolution [OF example_configured(1) nw5,
        THEN conjunct1, rule_format, OF g5] .
  note X = domain_limit_resolution [OF example_configured(1) nwx, of 1000000000000 1,
        THEN conjunct2, THEN conjunct2, rule_format, OF gx]
  have p: "count (pruned_token 1000000000000 ''u@biz.com'' ?wx) = 0"
    by (simp add: example_pruned example_token_def)
  have b: "0 \<le> sint (count (pruned_token 1000000000000 ''u@biz.com'' ?wx))
      \<and> 0 \<le> sint (1 :: goint)
      \<and> sint (count (pruned_token 1000000000000 ''u@biz.com'' ?wx)) + sint (normalized 1)
          < 2 ^ 63"
    unfolding p by (simp add: normalized_def)
  have c: "\<exists>w'. RateLimit 1000000000000 ''u@biz.com'' 1 ?wx
             = Inr (deferAction (deferMessage (rsw ?wx)), w')"
    using X [THEN conjunct2, THEN conjunct2, rule_format, OF b] .
  have dm: "deferMessage (rsw ?wx) = ''rate limit exceeded''" by (simp add: example_rsw_def)
  show ?thesis using a X [THEN conjunct1] c unfolding dm by simp
qed

subsection \<open>Panics\<close>

text \<open>Claim C8, as stated, fails: on a controller made by
  \<open>NewRatelimitSlidingWindow\<close> with a registry made by \<open>NewRatelimitTokenMap\<close>, on
  which \<open>SetLogger\<close> was never called, the logger is nil and the first log call of
  \<open>RateLimit\<close> panics.\<close>

theorem unset_logger_panics:
  "RateLimit 1000000000000 ''a@x.com'' 0
     \<lparr>rsw = NewRatelimitSlidingWindow [] [] NewRatelimitTokenMap, heap = []\<rparr>
     = Inl NilPointerDereference
   \<and> RateLimit 1000000000000 ''a@x.com'' 1
     \<lparr>rsw = NewRatelimitSlidingWindow [] [] NewRatelimitTokenMap, heap = []\<rparr>
     = Inl NilPointerDereference"
  by (simp add: RateLimit_def NewRatelimitSlidingWindow_def NewRatelimitTokenMap_def
        checkWhiteList_def Get_def messagelimit_def checkDomain_def Token_def deref_def
        Prune_def Count_def RecordMessage_def SetLogger_rlt_def NewRatelimitToken_def Let_def
        senderDomain_def word_sless_alt)

text \<open>Claim C8, amended. On a configured controller (loggers set on the controller, on
  the registry and on the registered tokens) \<open>RateLimit\<close> returns one of the two
  decisions for every sender and every recipient count and leaves a configured world, and
  \<open>SetInterval\<close> returns for every string, whatever the duration parser answers. The
  other setters only assign a field.\<close>

theorem configured_never_panics:
  assumes "configured w"
  shows "(\<exists>res w'. RateLimit now sender recips w = Inr (res, w') \<and> configured w'
            \<and> (res = permitAction \<or> res = deferAction (deferMessage (rsw w))))
       \<and> (\<exists>r'. SetInterval ParseDuration i (rsw w) = Inr r')"
proof
  obtain l where l: "rsw_logger (rsw w) = Some l" using assms by (auto simp: configured_def)
  show "\<exists>res w'. RateLimit now sender recips w = Inr (res, w') \<and> configured w'
            \<and> (res = permitAction \<or> res = deferAction (deferMessage (rsw w)))"
  proof (cases "whitelisted (rsw w) sender")
    case True
    then show ?thesis using RateLimit_whitelisted [OF l True, of now recips] assms by blast
  next
    case False
    obtain lim where lim: "messagelimit (rsw w) (senderDomain sender) = Inr lim"
      using messagelimit_logged [OF l] by blast
    show ?thesis using RateLimit_configured_result [OF assms False lim, of now recips] by blast
  qed
  show "\<exists>r'. SetInterval ParseDuration i (rsw w) = Inr r'"
    using l by (simp add: SetInterval_def split: sum.splits)
qed

theorem configured_never_panics_witness:
  "(\<exists>res w'. RateLimit 1000000000000 ''a@x.com'' 0
                \<lparr>rsw = example_rsw [] [] [], heap = []\<rparr> = Inr (res, w')
        \<and> configured w'
        \<and> (res = permitAction
             \<or> res = deferAction (deferMessage (rsw \<lparr>rsw = example_rsw [] [] [], heap = []\<rparr>))))
   \<and> (\<exists>r'. SetInterval (\<lambda>s. Inl ErrSyntax) ''abc'' (rsw \<lparr>rsw = example_rsw [] [] [], heap = []\<rparr>) = Inr r')"
  using configured_never_panics [OF example_configured(1)] .

end
